theory Spec2Isabelle
  imports Main "HOL-Library.Word"
begin

unbundle bit_operations_syntax

section \<open>SecureVault security service: data, errors and the Python runtime\<close>

text \<open>
  The service is Python. A \<open>bytes\<close> value is a list of 8-bit words; a \<open>str\<close> is a list of
  Unicode code points (Python counts code points, and a \<open>str\<close> may hold any code point
  below \<open>0x110000\<close>, lone surrogates included). Exceptions are values of \<open>exn\<close>; a function
  that may raise returns \<open>exn + 'a\<close>, with \<open>Inl\<close> for the exception.
\<close>

type_synonym byte = "8 word"
type_synonym bytes = "byte list"
type_synonym str = "nat list"

datatype exn =
    RuntimeError string
  | ValueError
  | BinasciiError
  | UnicodeEncodeError
  | UnicodeDecodeError
  | OverflowError
  | InvalidTag
  | TimeoutException
  | ConnectError
  | HTTPStatusError nat

text \<open>A \<open>str\<close> literal of the source, written as an Isabelle string of ASCII characters.\<close>

definition ascii :: "string \<Rightarrow> str" where
  "ascii s = map of_char s"

subsection \<open>\<open>str.encode('utf-8')\<close> and \<open>bytes.decode('utf-8')\<close>\<close>

text \<open>
  The strict UTF-8 codec: encoding raises \<open>UnicodeEncodeError\<close> on a surrogate code point
  (\<open>0xD800\<close> to \<open>0xDFFF\<close>); decoding raises \<open>UnicodeDecodeError\<close> on a stray or missing
  continuation byte, an overlong form, an encoded surrogate or a value above \<open>0x10FFFF\<close>.
\<close>

definition utf8_char :: "nat \<Rightarrow> nat list option" where
  "utf8_char c =
     (if c < 0x80 then Some [c]
      else if c < 0x800 then Some [0xC0 + c div 64, 0x80 + c mod 64]
      else if c < 0x10000 then
        (if 0xD800 \<le> c \<and> c \<le> 0xDFFF then None
         else Some [0xE0 + c div 4096, 0x80 + c div 64 mod 64, 0x80 + c mod 64])
      else if c < 0x110000 then
        Some [0xF0 + c div 262144, 0x80 + c div 4096 mod 64, 0x80 + c div 64 mod 64,
              0x80 + c mod 64]
      else None)"

fun utf8_encode :: "str \<Rightarrow> exn + bytes" where
  "utf8_encode [] = Inr []"
| "utf8_encode (c # cs) =
     (case utf8_char c of
        None \<Rightarrow> Inl UnicodeEncodeError
      | Some bs \<Rightarrow>
          (case utf8_encode cs of Inl e \<Rightarrow> Inl e | Inr rest \<Rightarrow> Inr (map of_nat bs @ rest)))"

definition cont :: "nat \<Rightarrow> bool" where
  "cont b = (0x80 \<le> b \<and> b \<le> 0xBF)"

definition emit :: "nat \<Rightarrow> exn + str \<Rightarrow> exn + str" where
  "emit c r = (case r of Inl e \<Rightarrow> Inl e | Inr cs \<Rightarrow> Inr (c # cs))"

fun utf8_scan :: "nat list \<Rightarrow> exn + str" where
  "utf8_scan [] = Inr []"
| "utf8_scan (b0 # bs) =
     (if b0 < 0x80 then emit b0 (utf8_scan bs)
      else if 0xC2 \<le> b0 \<and> b0 \<le> 0xDF then
        (case bs of
           b1 # bs1 \<Rightarrow>
             if cont b1 then emit ((b0 - 0xC0) * 64 + (b1 - 0x80)) (utf8_scan bs1)
             else Inl UnicodeDecodeError
         | _ \<Rightarrow> Inl UnicodeDecodeError)
      else if 0xE0 \<le> b0 \<and> b0 \<le> 0xEF then
        (case bs of
           b1 # b2 # bs2 \<Rightarrow>
             if cont b1 \<and> cont b2 \<and> (b0 = 0xE0 \<longrightarrow> 0xA0 \<le> b1) \<and> (b0 = 0xED \<longrightarrow> b1 \<le> 0x9F)
             then emit ((b0 - 0xE0) * 4096 + (b1 - 0x80) * 64 + (b2 - 0x80)) (utf8_scan bs2)
             else Inl UnicodeDecodeError
         | _ \<Rightarrow> Inl UnicodeDecodeError)
      else if 0xF0 \<le> b0 \<and> b0 \<le> 0xF4 then
        (case bs of
           b1 # b2 # b3 # bs3 \<Rightarrow>
             if cont b1 \<and> cont b2 \<and> cont b3 \<and> (b0 = 0xF0 \<longrightarrow> 0x90 \<le> b1)
                \<and> (b0 = 0xF4 \<longrightarrow> b1 \<le> 0x8F)
             then emit ((b0 - 0xF0) * 262144 + (b1 - 0x80) * 4096 + (b2 - 0x80) * 64 + (b3 - 0x80))
                    (utf8_scan bs3)
             else Inl UnicodeDecodeError
         | _ \<Rightarrow> Inl UnicodeDecodeError)
      else Inl UnicodeDecodeError)"

definition utf8_decode :: "bytes \<Rightarrow> exn + str" where
  "utf8_decode bs = utf8_scan (map unat bs)"

subsection \<open>\<open>base64.b64encode\<close> and \<open>base64.b64decode\<close>\<close>

text \<open>
  \<open>b64encode\<close> is the standard alphabet with \<open>=\<close> padding. \<open>b64decode\<close> is called by the
  service with its default \<open>validate=False\<close>: a \<open>str\<close> argument must be ASCII (else
  \<open>ValueError\<close>), characters outside the alphabet are skipped, a pad that completes a
  quad ends the decoding, and data that stops inside a quad raises \<open>binascii.Error\<close>.
  \<open>a2b_loop\<close> follows the decoder's loop over \<open>quad_pos\<close>, \<open>leftchar\<close> and \<open>pads\<close>.
\<close>

definition table_b2a_base64 :: "nat \<Rightarrow> nat" where
  "table_b2a_base64 v =
     (if v < 26 then 65 + v
      else if v < 52 then 97 + (v - 26)
      else if v < 62 then 48 + (v - 52)
      else if v = 62 then 43 else 47)"

definition table_a2b_base64 :: "nat \<Rightarrow> nat option" where
  "table_a2b_base64 c =
     (if 65 \<le> c \<and> c \<le> 90 then Some (c - 65)
      else if 97 \<le> c \<and> c \<le> 122 then Some (c - 71)
      else if 48 \<le> c \<and> c \<le> 57 then Some (c + 4)
      else if c = 43 then Some 62
      else if c = 47 then Some 63
      else None)"

fun b2a_base64 :: "bytes \<Rightarrow> str" where
  "b2a_base64 (a # b # c # rest) =
     [table_b2a_base64 (unat a div 4),
      table_b2a_base64 ((unat a mod 4) * 16 + unat b div 16),
      table_b2a_base64 ((unat b mod 16) * 4 + unat c div 64),
      table_b2a_base64 (unat c mod 64)] @ b2a_base64 rest"
| "b2a_base64 [a, b] =
     [table_b2a_base64 (unat a div 4),
      table_b2a_base64 ((unat a mod 4) * 16 + unat b div 16),
      table_b2a_base64 ((unat b mod 16) * 4), 61]"
| "b2a_base64 [a] =
     [table_b2a_base64 (unat a div 4),
      table_b2a_base64 ((unat a mod 4) * 16), 61, 61]"
| "b2a_base64 [] = []"

fun a2b_loop :: "nat \<Rightarrow> nat \<Rightarrow> nat \<Rightarrow> str \<Rightarrow> bytes \<Rightarrow> exn + bytes" where
  "a2b_loop quad_pos leftchar pads [] out =
     (if quad_pos \<noteq> 0 then Inl BinasciiError else Inr out)"
| "a2b_loop quad_pos leftchar pads (this_ch # rest) out =
     (if this_ch = 61 then
        (if quad_pos \<ge> 2 \<and> quad_pos + (pads + 1) \<ge> 4 then Inr out
         else a2b_loop quad_pos leftchar (if quad_pos \<ge> 2 then pads + 1 else pads) rest out)
      else
        (case table_a2b_base64 this_ch of
           None \<Rightarrow> a2b_loop quad_pos leftchar pads rest out
         | Some v \<Rightarrow>
             (if quad_pos = 0 then a2b_loop 1 v 0 rest out
              else if quad_pos = 1 then
                a2b_loop 2 (v mod 16) 0 rest (out @ [of_nat (leftchar * 4 + v div 16)])
              else if quad_pos = 2 then
                a2b_loop 3 (v mod 4) 0 rest (out @ [of_nat (leftchar * 16 + v div 4)])
              else
                a2b_loop 0 0 0 rest (out @ [of_nat (leftchar * 64 + v)]))))"

definition b64encode :: "bytes \<Rightarrow> str" where
  "b64encode s = b2a_base64 s"

definition b64decode :: "str \<Rightarrow> exn + bytes" where
  "b64decode s =
     (if list_ex (\<lambda>c. c \<ge> 128) s then Inl ValueError
      else a2b_loop 0 0 0 s [])"

subsection \<open>\<open>bytes.fromhex\<close>\<close>

text \<open>
  Two hexadecimal digits per byte; ASCII whitespace between bytes is skipped; anything else
  raises \<open>ValueError\<close>.
\<close>

definition hex_digit :: "nat \<Rightarrow> nat option" where
  "hex_digit c =
     (if 48 \<le> c \<and> c \<le> 57 then Some (c - 48)
      else if 97 \<le> c \<and> c \<le> 102 then Some (c - 87)
      else if 65 \<le> c \<and> c \<le> 70 then Some (c - 55)
      else None)"

definition py_isspace :: "nat \<Rightarrow> bool" where
  "py_isspace c = (c = 32 \<or> (9 \<le> c \<and> c \<le> 13))"

fun fromhex :: "str \<Rightarrow> exn + bytes" where
  "fromhex [] = Inr []"
| "fromhex (c # cs) =
     (if py_isspace c then fromhex cs
      else
        (case hex_digit c of
           None \<Rightarrow> Inl ValueError
         | Some hi \<Rightarrow>
             (case cs of
                [] \<Rightarrow> Inl ValueError
              | d # ds \<Rightarrow>
                  (case hex_digit d of
                     None \<Rightarrow> Inl ValueError
                   | Some lo \<Rightarrow>
                       (case fromhex ds of
                          Inl e \<Rightarrow> Inl e
                        | Inr rest \<Rightarrow> Inr (of_nat (hi * 16 + lo) # rest))))))"

section \<open>services/encryption.py\<close>

text \<open>
  The AEAD primitive is the \<open>cryptography\<close> package's \<open>AESGCM\<close>; it is not part of the
  service, so it is a parameter: \<open>aesgcm_encrypt lib key nonce data\<close> stands for
  \<open>AESGCM(key).encrypt(nonce, data, None)\<close> and returns the ciphertext with the tag
  appended; \<open>aesgcm_decrypt lib key nonce data\<close> stands for
  \<open>AESGCM(key).decrypt(nonce, data, None)\<close>. The constructor's own check of the key
  length is \<open>AESGCM\<close>.
\<close>

record aead =
  aesgcm_encrypt :: "bytes \<Rightarrow> bytes \<Rightarrow> bytes \<Rightarrow> exn + bytes"
  aesgcm_decrypt :: "bytes \<Rightarrow> bytes \<Rightarrow> bytes \<Rightarrow> exn + bytes"

definition AESGCM :: "bytes \<Rightarrow> exn + bytes" where
  "AESGCM key = (if length key \<in> {16, 24, 32} then Inr key else Inl ValueError)"

text \<open>
  \<open>os.environ\<close> maps variable names to values. \<open>secrets.token_bytes\<close> reads the operating
  system's random source, an unbounded sequence of bytes consumed from the front.
\<close>

type_synonym environ = "string \<Rightarrow> str option"
type_synonym entropy = "nat \<Rightarrow> byte"

definition token_bytes :: "nat \<Rightarrow> entropy \<Rightarrow> bytes \<times> entropy" where
  "token_bytes n rnd = (map rnd [0..<n], \<lambda>i. rnd (i + n))"

text \<open>The source's \<open>_load_key\<close> (an Isabelle name cannot start with an underscore).\<close>

definition load_key :: "environ \<Rightarrow> exn + bytes" where
  "load_key env =
     (case env ''VAULT_ENCRYPTION_KEY'' of
        None \<Rightarrow> Inl (RuntimeError ''VAULT_ENCRYPTION_KEY environment variable not set'')
      | Some key_hex \<Rightarrow>
          if key_hex = [] then
            Inl (RuntimeError ''VAULT_ENCRYPTION_KEY environment variable not set'')
          else
            (case fromhex key_hex of
               Inl e \<Rightarrow> Inl e
             | Inr key_bytes \<Rightarrow>
                 if length key_bytes \<noteq> 32 then
                   Inl (RuntimeError
                     ''VAULT_ENCRYPTION_KEY must be exactly 32 bytes (64 hex chars)'')
                 else Inr key_bytes))"

text \<open>
  The dict returned by \<open>encrypt\<close>, with its keys \<open>ciphertext\<close>, \<open>iv\<close> and \<open>tag\<close>; the body of
  a \<open>DecryptRequest\<close> has the same three fields. Each is base64 text.
\<close>

record envelope =
  ciphertext :: str
  iv :: str
  tag :: str

text \<open>
  \<open>encrypt\<close> also returns the random source as it leaves it. \<open>x[:-16]\<close> is
  \<open>take (length x - 16) x\<close> and \<open>x[-16:]\<close> is \<open>drop (length x - 16) x\<close>, also when \<open>x\<close> is
  shorter than 16 bytes.
\<close>

definition encrypt :: "aead \<Rightarrow> environ \<Rightarrow> entropy \<Rightarrow> str \<Rightarrow> (exn + envelope) \<times> entropy" where
  "encrypt lib env rnd plaintext =
     (case load_key env of
        Inl e \<Rightarrow> (Inl e, rnd)
      | Inr key \<Rightarrow>
     (case AESGCM key of
        Inl e \<Rightarrow> (Inl e, rnd)
      | Inr aesgcm \<Rightarrow>
     (let (iv_bytes, rnd') = token_bytes 12 rnd in
     (case utf8_encode plaintext of
        Inl e \<Rightarrow> (Inl e, rnd')
      | Inr plaintext_bytes \<Rightarrow>
     (case aesgcm_encrypt lib aesgcm iv_bytes plaintext_bytes of
        Inl e \<Rightarrow> (Inl e, rnd')
      | Inr ciphertext_with_tag \<Rightarrow>
          (let ciphertext_bytes = take (length ciphertext_with_tag - 16) ciphertext_with_tag;
               tag_bytes = drop (length ciphertext_with_tag - 16) ciphertext_with_tag
           in (Inr \<lparr>ciphertext = b64encode ciphertext_bytes,
                     iv = b64encode iv_bytes,
                     tag = b64encode tag_bytes\<rparr>, rnd')))))))"

definition decrypt :: "aead \<Rightarrow> environ \<Rightarrow> str \<Rightarrow> str \<Rightarrow> str \<Rightarrow> exn + str" where
  "decrypt lib env ciphertext_b64 iv_b64 tag_b64 =
     (case load_key env of
        Inl e \<Rightarrow> Inl e
      | Inr key \<Rightarrow>
     (case AESGCM key of
        Inl e \<Rightarrow> Inl e
      | Inr aesgcm \<Rightarrow>
     (case b64decode ciphertext_b64 of
        Inl e \<Rightarrow> Inl e
      | Inr ciphertext_bytes \<Rightarrow>
     (case b64decode iv_b64 of
        Inl e \<Rightarrow> Inl e
      | Inr iv_bytes \<Rightarrow>
     (case b64decode tag_b64 of
        Inl e \<Rightarrow> Inl e
      | Inr tag_bytes \<Rightarrow>
     (let ciphertext_with_tag = ciphertext_bytes @ tag_bytes in
     (case aesgcm_decrypt lib aesgcm iv_bytes ciphertext_with_tag of
        Inl e \<Rightarrow> Inl e
      | Inr plaintext_bytes \<Rightarrow> utf8_decode plaintext_bytes)))))))"

section \<open>routers/encrypt.py\<close>

text \<open>
  An endpoint returns a value, raises \<open>HTTPException\<close> with a status code, or lets an
  exception escape (the framework then answers 500). The \<open>detail\<close> of an \<open>HTTPException\<close>
  is its fixed text, followed by the exception where the source formats \<open>str(e)\<close> into it.
\<close>

datatype detail = Detail string | DetailOf string exn

datatype 'a outcome = Return 'a | HTTPException nat detail | Unhandled exn

definition encrypt_endpoint ::
    "aead \<Rightarrow> environ \<Rightarrow> entropy \<Rightarrow> str \<Rightarrow> envelope outcome \<times> entropy" where
  "encrypt_endpoint lib env rnd plaintext =
     (if plaintext = [] then (HTTPException 400 (Detail ''Plaintext cannot be empty''), rnd)
      else
        (case encrypt lib env rnd plaintext of
           (Inl e, rnd') \<Rightarrow> (Unhandled e, rnd')
         | (Inr d, rnd') \<Rightarrow> (Return d, rnd')))"

definition decrypt_endpoint :: "aead \<Rightarrow> environ \<Rightarrow> envelope \<Rightarrow> str outcome" where
  "decrypt_endpoint lib env req =
     (case decrypt lib env (ciphertext req) (iv req) (tag req) of
        Inr plaintext \<Rightarrow> Return plaintext
      | Inl InvalidTag \<Rightarrow>
          HTTPException 422 (Detail
            ''Decryption failed: authentication tag invalid. Data may have been tampered with.'')
      | Inl e \<Rightarrow> HTTPException 400 (DetailOf ''Decryption error: '' e))"

section \<open>The codecs invert each other\<close>

subsection \<open>base64\<close>

lemma table_a2b_b2a: "v < 64 \<Longrightarrow> table_a2b_base64 (table_b2a_base64 v) = Some v"
  by (auto simp: table_a2b_base64_def table_b2a_base64_def)

lemma table_b2a_not_pad: "table_b2a_base64 v \<noteq> 61"
  by (auto simp: table_b2a_base64_def)

lemma table_b2a_ascii: "table_b2a_base64 v < 128"
  by (auto simp: table_b2a_base64_def)

lemma unat_byte_lt: "unat (a :: byte) < 256"
  using unsigned_less [of a] by simp

lemma a2b_loop_quad:
  assumes "v0 < 64" "v1 < 64" "v2 < 64" "v3 < 64"
  shows "a2b_loop 0 l p
     (table_b2a_base64 v0 # table_b2a_base64 v1 # table_b2a_base64 v2 #
      table_b2a_base64 v3 # rest) out
   = a2b_loop 0 0 0 rest
       (out @ [of_nat (v0 * 4 + v1 div 16), of_nat (v1 mod 16 * 16 + v2 div 4),
               of_nat (v2 mod 4 * 64 + v3)])"
  using assms by (simp add: table_a2b_b2a table_b2a_not_pad)

lemma sextets_of_bytes:
  fixes a b c :: byte
  shows "unat a div 4 < 64"
    and "(unat a mod 4) * 16 + unat b div 16 < 64"
    and "(unat b mod 16) * 4 + unat c div 64 < 64"
    and "unat c mod 64 < 64"
    and "unat a div 4 * 4 + ((unat a mod 4) * 16 + unat b div 16) div 16 = unat a"
    and "((unat a mod 4) * 16 + unat b div 16) mod 16 * 16
              + ((unat b mod 16) * 4 + unat c div 64) div 4 = unat b"
    and "((unat b mod 16) * 4 + unat c div 64) mod 4 * 64 + unat c mod 64 = unat c"
proof -
  have la: "unat a < 256" and lb: "unat b < 256" and lc: "unat c < 256"
    by (rule unat_byte_lt)+
  show "unat a div 4 < 64" using la by simp
  have "unat a mod 4 \<le> 3" by simp
  moreover have "unat b div 16 \<le> 15" using lb by simp
  ultimately show "(unat a mod 4) * 16 + unat b div 16 < 64" by linarith
  have "unat b mod 16 \<le> 15" by simp
  moreover have "unat c div 64 \<le> 3" using lc by simp
  ultimately show "(unat b mod 16) * 4 + unat c div 64 < 64" by linarith
  show "unat c mod 64 < 64" by simp
  show "unat a div 4 * 4 + ((unat a mod 4) * 16 + unat b div 16) div 16 = unat a"
    using lb by simp
  show "((unat a mod 4) * 16 + unat b div 16) mod 16 * 16
              + ((unat b mod 16) * 4 + unat c div 64) div 4 = unat b"
    using lb lc by simp
  show "((unat b mod 16) * 4 + unat c div 64) mod 4 * 64 + unat c mod 64 = unat c"
    using lc by simp
qed

lemma a2b_loop_group:
  fixes a b c :: byte
  shows "a2b_loop 0 l p
     (table_b2a_base64 (unat a div 4) #
      table_b2a_base64 ((unat a mod 4) * 16 + unat b div 16) #
      table_b2a_base64 ((unat b mod 16) * 4 + unat c div 64) #
      table_b2a_base64 (unat c mod 64) # rest) out
   = a2b_loop 0 0 0 rest (out @ [a, b, c])"
  by (simp only: a2b_loop_quad [OF sextets_of_bytes(1-4)] sextets_of_bytes(5-7) of_nat_unat ucast_id)

lemma a2b_loop_b2a: "a2b_loop 0 l p (b2a_base64 xs) out = Inr (out @ xs)"
proof (induction xs arbitrary: l p out rule: b2a_base64.induct)
  case (1 a b c rest)
  show ?case
    by (simp only: b2a_base64.simps append_Cons append_Nil a2b_loop_group "1.IH") simp
next
  case (2 a b)
  have "a2b_loop 0 l p
     (table_b2a_base64 (unat a div 4) #
      table_b2a_base64 ((unat a mod 4) * 16 + unat b div 16) #
      table_b2a_base64 ((unat b mod 16) * 4 + unat (0::byte) div 64) # [61]) out
     = Inr (out @ [a, b])"
    using sextets_of_bytes(1) [of a] sextets_of_bytes(2) [of a b]
      sextets_of_bytes(3) [of b 0] sextets_of_bytes(5) [of a b] sextets_of_bytes(6) [of a b 0]
    by (simp add: table_a2b_b2a table_b2a_not_pad del: of_nat_add of_nat_mult)
  then show ?case by simp
next
  case (3 a)
  have "a2b_loop 0 l p
     (table_b2a_base64 (unat a div 4) #
      table_b2a_base64 ((unat a mod 4) * 16 + unat (0::byte) div 16) # [61, 61]) out
     = Inr (out @ [a])"
    using sextets_of_bytes(1) [of a] sextets_of_bytes(2) [of a 0] sextets_of_bytes(5) [of a 0]
    by (simp add: table_a2b_b2a table_b2a_not_pad del: of_nat_add of_nat_mult)
  then show ?case by simp
next
  case 4
  show ?case by simp
qed

lemma b2a_base64_ascii: "c \<in> set (b2a_base64 xs) \<Longrightarrow> c < 128"
  by (induction xs rule: b2a_base64.induct) (auto simp: table_b2a_ascii)

lemma b64decode_b64encode: "b64decode (b64encode xs) = Inr xs"
proof -
  have "\<not> list_ex (\<lambda>c. c \<ge> 128) (b2a_base64 xs)"
    using b2a_base64_ascii [of _ xs] by (force simp: list_ex_iff not_le)
  then show ?thesis
    using a2b_loop_b2a [of 0 0 xs "[]"] by (simp add: b64decode_def b64encode_def)
qed


lemma b64encode_inj:
  assumes "b64encode xs = b64encode ys"
  shows "xs = ys"
proof -
  have "Inr xs = b64decode (b64encode xs)" by (simp only: b64decode_b64encode)
  also have "\<dots> = b64decode (b64encode ys)" by (simp only: assms)
  also have "\<dots> = Inr ys" by (simp only: b64decode_b64encode)
  finally show ?thesis by simp
qed

subsection \<open>UTF-8\<close>

lemma utf8_char_bytes: "utf8_char c = Some bs \<Longrightarrow> b \<in> set bs \<Longrightarrow> b < 256"
  by (auto simp: utf8_char_def split: if_splits)

lemma div4096: "(c::nat) div 4096 = c div 64 div 64"
  by (simp add: div_mult2_eq)

lemma div262144: "(c::nat) div 262144 = c div 64 div 64 div 64"
  by (simp add: div_mult2_eq)

lemma digits3:
  fixes c :: nat
  obtains a m1 m0 where "c = 4096 * a + 64 * m1 + m0" "m1 < 64" "m0 < 64"
    "c div 4096 = a" "c div 64 mod 64 = m1" "c mod 64 = m0"
proof -
  have "c = 64 * (c div 64) + c mod 64" by simp
  moreover have "c div 64 = 64 * (c div 64 div 64) + c div 64 mod 64" by simp
  ultimately have "c = 4096 * (c div 4096) + 64 * (c div 64 mod 64) + c mod 64"
    unfolding div4096 by linarith
  then show ?thesis using that [of "c div 4096" "c div 64 mod 64" "c mod 64"] by simp
qed

lemma digits4:
  fixes c :: nat
  obtains a m2 m1 m0 where "c = 262144 * a + 4096 * m2 + 64 * m1 + m0"
    "m2 < 64" "m1 < 64" "m0 < 64"
    "c div 262144 = a" "c div 4096 mod 64 = m2" "c div 64 mod 64 = m1" "c mod 64 = m0"
proof -
  have "c = 64 * (c div 64) + c mod 64" by simp
  moreover have "c div 64 = 64 * (c div 64 div 64) + c div 64 mod 64" by simp
  moreover have "c div 64 div 64 = 64 * (c div 64 div 64 div 64) + c div 64 div 64 mod 64"
    by simp
  ultimately have "c = 262144 * (c div 262144) + 4096 * (c div 4096 mod 64)
      + 64 * (c div 64 mod 64) + c mod 64"
    unfolding div4096 div262144 by linarith
  then show ?thesis
    using that [of "c div 262144" "c div 4096 mod 64" "c div 64 mod 64" "c mod 64"] by simp
qed

lemma utf8_scan_2:
  assumes "2 \<le> a" "a < 32" "m0 < 64"
  shows "utf8_scan ((192 + a) # (128 + m0) # rest) = emit (a * 64 + m0) (utf8_scan rest)"
  using assms by (simp add: cont_def)

lemma utf8_scan_3:
  assumes "a < 16" "m1 < 64" "m0 < 64" "a = 0 \<longrightarrow> 32 \<le> m1" "a = 13 \<longrightarrow> m1 < 32"
  shows "utf8_scan ((224 + a) # (128 + m1) # (128 + m0) # rest)
         = emit (a * 4096 + m1 * 64 + m0) (utf8_scan rest)"
  using assms by (auto simp: cont_def)

lemma utf8_scan_4:
  assumes "a \<le> 4" "m2 < 64" "m1 < 64" "m0 < 64" "a = 0 \<longrightarrow> 16 \<le> m2" "a = 4 \<longrightarrow> m2 < 16"
  shows "utf8_scan ((240 + a) # (128 + m2) # (128 + m1) # (128 + m0) # rest)
         = emit (a * 262144 + m2 * 4096 + m1 * 64 + m0) (utf8_scan rest)"
  using assms by (auto simp: cont_def)

lemma utf8_scan_char:
  assumes "utf8_char c = Some bs"
  shows "utf8_scan (bs @ rest) = emit c (utf8_scan rest)"
proof -
  consider (a) "c < 0x80" | (b) "0x80 \<le> c" "c < 0x800"
    | (c) "0x800 \<le> c" "c < 0x10000" "\<not> (0xD800 \<le> c \<and> c \<le> 0xDFFF)"
    | (d) "0x10000 \<le> c" "c < 0x110000"
    using assms by (auto simp: utf8_char_def split: if_splits)
  then show ?thesis
  proof cases
    case a
    then show ?thesis using assms by (auto simp: utf8_char_def)
  next
    case b
    then have bs: "bs = [0xC0 + c div 64, 0x80 + c mod 64]"
      using assms by (auto simp: utf8_char_def)
    have "2 \<le> c div 64" "c div 64 < 32" "c mod 64 < 64" using b by auto
    from utf8_scan_2 [OF this, of rest] show ?thesis
      unfolding bs by simp
  next
    case c
    then have bs: "bs = [0xE0 + c div 4096, 0x80 + c div 64 mod 64, 0x80 + c mod 64]"
      using assms by (auto simp: utf8_char_def)
    obtain a m1 m0 where d: "c = 4096 * a + 64 * m1 + m0" "m1 < 64" "m0 < 64"
      "c div 4096 = a" "c div 64 mod 64 = m1" "c mod 64 = m0"
      by (rule digits3)
    have 1: "a < 16" using c d(1-3) by linarith
    have 2: "a = 0 \<longrightarrow> 32 \<le> m1" using c d(1-3) by auto
    have 3: "a = 13 \<longrightarrow> m1 < 32" using c d(1-3) by auto
    have "a * 4096 + m1 * 64 + m0 = c" using d(1) by simp
    with utf8_scan_3 [OF 1 d(2) d(3) 2 3, of rest] show ?thesis
      unfolding bs d(4-6) by simp
  next
    case d
    then have bs: "bs = [0xF0 + c div 262144, 0x80 + c div 4096 mod 64,
        0x80 + c div 64 mod 64, 0x80 + c mod 64]"
      using assms by (auto simp: utf8_char_def)
    obtain a m2 m1 m0 where e: "c = 262144 * a + 4096 * m2 + 64 * m1 + m0"
      "m2 < 64" "m1 < 64" "m0 < 64"
      "c div 262144 = a" "c div 4096 mod 64 = m2" "c div 64 mod 64 = m1" "c mod 64 = m0"
      by (rule digits4)
    have 1: "a \<le> 4" using d e(1-4) by linarith
    have 2: "a = 0 \<longrightarrow> 16 \<le> m2" using d e(1-4) by auto
    have 3: "a = 4 \<longrightarrow> m2 < 16" using d e(1-4) by auto
    have "a * 262144 + m2 * 4096 + m1 * 64 + m0 = c" using e(1) by simp
    with utf8_scan_4 [OF 1 e(2) e(3) e(4) 2 3, of rest] show ?thesis
      unfolding bs e(5-8) by simp
  qed
qed

lemma unat_of_nat_bytes:
  "\<forall>b \<in> set bs. b < 256 \<Longrightarrow> map unat (map of_nat bs :: bytes) = bs"
  by (induction bs) (auto simp: unat_of_nat)

lemma utf8_decode_encode: "utf8_encode s = Inr bs \<Longrightarrow> utf8_decode bs = Inr s"
proof (induction s arbitrary: bs)
  case Nil
  then show ?case by (simp add: utf8_decode_def)
next
  case (Cons c cs)
  from Cons.prems obtain cb rest where cb: "utf8_char c = Some cb"
    and rest: "utf8_encode cs = Inr rest" and bs: "bs = map of_nat cb @ rest"
    by (auto split: option.splits sum.splits)
  have "map unat bs = cb @ map unat rest"
    using utf8_char_bytes [OF cb] by (simp add: bs unat_of_nat_bytes del: map_map)
  moreover have "utf8_scan (map unat rest) = Inr cs"
    using Cons.IH [OF rest] by (simp add: utf8_decode_def)
  ultimately show ?case
    by (simp add: utf8_decode_def utf8_scan_char [OF cb] emit_def)
qed

section \<open>What the service needs of the AEAD primitive\<close>

text \<open>
  The three facts about \<open>AESGCM\<close> under a key that the claims rest on: decryption inverts
  encryption; the output is the ciphertext, as long as the data, followed by a 16-byte tag;
  and a single flipped bit in the nonce or in the output is rejected with \<open>InvalidTag\<close>.
\<close>

definition aead_inverts :: "aead \<Rightarrow> bytes \<Rightarrow> bool" where
  "aead_inverts lib key =
     (\<forall>nonce data out. aesgcm_encrypt lib key nonce data = Inr out
        \<longrightarrow> aesgcm_decrypt lib key nonce out = Inr data)"

definition aead_appends_tag :: "aead \<Rightarrow> bytes \<Rightarrow> bool" where
  "aead_appends_tag lib key =
     (\<forall>nonce data out. aesgcm_encrypt lib key nonce data = Inr out
        \<longrightarrow> length out = length data + 16)"

definition flip_bit :: "nat \<Rightarrow> bytes \<Rightarrow> bytes" where
  "flip_bit i bs = bs[i div 8 := (bs ! (i div 8)) XOR push_bit (i mod 8) 1]"

definition aead_rejects_bit_flips :: "aead \<Rightarrow> bytes \<Rightarrow> bool" where
  "aead_rejects_bit_flips lib key =
     (\<forall>nonce data out i. aesgcm_encrypt lib key nonce data = Inr out
        \<longrightarrow> i < 8 * (length nonce + length out)
        \<longrightarrow> aesgcm_decrypt lib key
              (take (length nonce) (flip_bit i (nonce @ out)))
              (drop (length nonce) (flip_bit i (nonce @ out))) = Inl InvalidTag)"

section \<open>A reference AEAD to run the service on concrete inputs\<close>

text \<open>
  A small stand-in with the interface and the argument checks of \<open>AESGCM\<close> (nonce of 8 to
  128 bytes, data of at most \<open>2^31 - 1\<close> bytes, \<open>InvalidTag\<close> on data shorter than the tag or on a
  tag mismatch): the data is masked with a key and nonce dependent stream, the tag is a
  checksum of key, nonce and ciphertext. It has no cryptographic strength; it only shows
  that the three facts above can hold together and lets the service be evaluated.
\<close>

definition xor_sum :: "bytes \<Rightarrow> byte" where
  "xor_sum bs = foldr (XOR) bs 0"

fun xor_stream :: "byte \<Rightarrow> nat \<Rightarrow> bytes \<Rightarrow> bytes" where
  "xor_stream s i [] = []"
| "xor_stream s i (b # bs) = (b XOR (s + of_nat i)) # xor_stream s (Suc i) bs"

definition ref_seal :: "bytes \<Rightarrow> bytes \<Rightarrow> bytes \<Rightarrow> bytes" where
  "ref_seal key nonce data = xor_stream (xor_sum key + xor_sum nonce) 0 data"

definition ref_tag :: "bytes \<Rightarrow> bytes \<Rightarrow> bytes \<Rightarrow> bytes" where
  "ref_tag key nonce ct = replicate 15 (xor_sum key) @ [xor_sum key + xor_sum (nonce @ ct)]"

definition ref_encrypt :: "bytes \<Rightarrow> bytes \<Rightarrow> bytes \<Rightarrow> exn + bytes" where
  "ref_encrypt key nonce data =
     (if length nonce < 8 \<or> 128 < length nonce then Inl ValueError
      else if 2147483647 < length data then Inl OverflowError
      else Inr (ref_seal key nonce data @ ref_tag key nonce (ref_seal key nonce data)))"

definition ref_decrypt :: "bytes \<Rightarrow> bytes \<Rightarrow> bytes \<Rightarrow> exn + bytes" where
  "ref_decrypt key nonce data =
     (if length nonce < 8 \<or> 128 < length nonce then Inl ValueError
      else if length data < 16 then Inl InvalidTag
      else
        (let ct = take (length data - 16) data; tg = drop (length data - 16) data
         in if tg = ref_tag key nonce ct then Inr (ref_seal key nonce ct) else Inl InvalidTag))"

definition ref_aead :: aead where
  "ref_aead = \<lparr>aesgcm_encrypt = ref_encrypt, aesgcm_decrypt = ref_decrypt\<rparr>"

lemma xor_stream_twice: "xor_stream s i (xor_stream s i bs) = bs"
  by (induction bs arbitrary: i) (auto simp: xor.assoc)

lemma length_xor_stream: "length (xor_stream s i bs) = length bs"
  by (induction bs arbitrary: i) auto

lemma length_ref_tag: "length (ref_tag key nonce ct) = 16"
  by (simp add: ref_tag_def)

lemma ref_aead_inverts: "aead_inverts ref_aead key"
  by (auto simp: aead_inverts_def ref_aead_def ref_encrypt_def ref_decrypt_def
      length_ref_tag ref_seal_def xor_stream_twice length_xor_stream split: if_splits)

lemma ref_aead_appends_tag: "aead_appends_tag ref_aead key"
  by (auto simp: aead_appends_tag_def ref_aead_def ref_encrypt_def
      length_ref_tag ref_seal_def length_xor_stream split: if_splits)


subsection \<open>Flipping one bit\<close>

lemma length_flip_bit: "length (flip_bit i bs) = length bs"
  by (simp add: flip_bit_def)

lemma flip_mask_nonzero: "push_bit (i mod 8) (1 :: byte) \<noteq> 0"
proof -
  have "i mod 8 < 8" by simp
  then have "bit (push_bit (i mod 8) (1 :: byte)) (i mod 8)"
    by (simp add: bit_simps)
  then show ?thesis by auto
qed

lemma xor_changes: "(d :: byte) \<noteq> 0 \<Longrightarrow> x XOR d \<noteq> x"
  by (metis xor.left_neutral xor.assoc xor_self_eq)

lemma flip_bit_differs:
  assumes "i < 8 * length bs"
  shows "flip_bit i bs \<noteq> bs"
proof -
  have k: "i div 8 < length bs" using assms by auto
  have "flip_bit i bs ! (i div 8) = bs ! (i div 8) XOR push_bit (i mod 8) 1"
    using k by (simp add: flip_bit_def)
  then have "flip_bit i bs ! (i div 8) \<noteq> bs ! (i div 8)"
    using xor_changes [OF flip_mask_nonzero] by simp
  then show ?thesis by auto
qed

lemma flip_bit_append_left:
  assumes "i < 8 * length xs"
  shows "flip_bit i (xs @ ys) = flip_bit i xs @ ys"
proof -
  have "i div 8 < length xs" using assms by auto
  then show ?thesis by (simp add: flip_bit_def list_update_append nth_append)
qed

lemma flip_bit_append_right:
  assumes "8 * length xs \<le> i"
  shows "flip_bit i (xs @ ys) = xs @ flip_bit (i - 8 * length xs) ys"
proof -
  have a: "length xs \<le> i div 8" using assms by auto
  have b: "(i - 8 * length xs) div 8 = i div 8 - length xs"
    using assms by (simp add: div_mult2_eq le_div_geq)
  have c: "(i - 8 * length xs) mod 8 = i mod 8"
    using assms by (metis le_mod_geq mod_mult_self1_is_0 mod_mult_self4 add.commute le_add_diff_inverse mult.commute)
  show ?thesis
    using a by (simp add: flip_bit_def list_update_append nth_append b c)
qed

lemma xor_sum_append: "xor_sum (xs @ ys) = xor_sum xs XOR xor_sum ys"
  by (induction xs) (auto simp: xor_sum_def xor.assoc)

lemma xor_sum_update:
  "k < length xs \<Longrightarrow> xor_sum (xs[k := xs ! k XOR d]) = xor_sum xs XOR d"
proof (induction xs arbitrary: k)
  case Nil
  then show ?case by simp
next
  case (Cons x xs)
  show ?case
  proof (cases k)
    case 0
    then show ?thesis by (simp add: xor_sum_def xor.assoc xor.left_commute xor.commute)
  next
    case (Suc j)
    then have "j < length xs" using Cons.prems by simp
    from Cons.IH [OF this] show ?thesis
      using Suc by (simp add: xor_sum_def xor.assoc)
  qed
qed

lemma xor_sum_flip_bit:
  assumes "i < 8 * length bs"
  shows "xor_sum (flip_bit i bs) \<noteq> xor_sum bs"
proof -
  have "i div 8 < length bs" using assms by auto
  then have "xor_sum (flip_bit i bs) = xor_sum bs XOR push_bit (i mod 8) 1"
    by (simp add: flip_bit_def xor_sum_update)
  then show ?thesis using xor_changes [OF flip_mask_nonzero] by simp
qed

lemma ref_aead_rejects_bit_flips: "aead_rejects_bit_flips ref_aead key"
  unfolding aead_rejects_bit_flips_def
proof (intro allI impI)
  fix nonce data out i
  assume enc: "aesgcm_encrypt ref_aead key nonce data = Inr out"
    and i: "i < 8 * (length nonce + length out)"
  define ct where "ct = ref_seal key nonce data"
  define tg where "tg = ref_tag key nonce ct"
  have nl: "\<not> (length nonce < 8 \<or> 128 < length nonce)" and out: "out = ct @ tg"
    using enc by (auto simp: ref_aead_def ref_encrypt_def ct_def tg_def split: if_splits)
  have ltg: "length tg = 16" by (simp add: tg_def length_ref_tag)
  define fl where "fl = flip_bit i (nonce @ out)"
  define nonce' where "nonce' = take (length nonce) fl"
  define data' where "data' = drop (length nonce) fl"
  have lfl: "length fl = length nonce + length ct + 16"
    by (simp add: fl_def length_flip_bit out ltg)
  have ln': "length nonce' = length nonce" by (simp add: nonce'_def lfl)
  have ld': "length data' = length ct + 16" by (simp add: data'_def lfl)
  have bad: "drop (length ct) data' \<noteq> ref_tag key nonce' (take (length ct) data')"
  proof (cases "i < 8 * (length nonce + length ct)")
    case True
    then have "fl = flip_bit i (nonce @ ct) @ tg"
      using flip_bit_append_left [of i "nonce @ ct" tg] by (simp add: fl_def out)
    moreover have "length (flip_bit i (nonce @ ct)) = length nonce + length ct"
      by (simp add: length_flip_bit)
    ultimately have parts: "nonce' @ take (length ct) data' = flip_bit i (nonce @ ct)"
      and tg': "drop (length ct) data' = tg"
      by (simp_all add: nonce'_def data'_def take_add [symmetric] add.commute)
    have "xor_sum (nonce' @ take (length ct) data') \<noteq> xor_sum (nonce @ ct)"
      unfolding parts using xor_sum_flip_bit [of i "nonce @ ct"] True by simp
    then have "last (ref_tag key nonce' (take (length ct) data')) \<noteq> last tg"
      by (simp add: ref_tag_def tg_def)
    then show ?thesis using tg' by auto
  next
    case False
    then have le: "8 * length (nonce @ ct) \<le> i" by simp
    have "fl = (nonce @ ct) @ flip_bit (i - 8 * length (nonce @ ct)) tg"
      using flip_bit_append_right [OF le, of tg] by (simp add: fl_def out)
    moreover have "length (flip_bit (i - 8 * length (nonce @ ct)) tg) = 16"
      by (simp add: length_flip_bit ltg)
    ultimately have n: "nonce' = nonce" and c: "take (length ct) data' = ct"
      and t: "drop (length ct) data' = flip_bit (i - 8 * length (nonce @ ct)) tg"
      by (simp_all add: nonce'_def data'_def)
    have "i - 8 * length (nonce @ ct) < 8 * length tg"
      using i False by (simp add: out ltg)
    from flip_bit_differs [OF this] show ?thesis
      by (simp add: n c t tg_def)
  qed
  have "aesgcm_decrypt ref_aead key nonce' data' = Inl InvalidTag"
    using nl bad by (simp add: ref_aead_def ref_decrypt_def ln' ld' Let_def)
  then show "aesgcm_decrypt ref_aead key
              (take (length nonce) (flip_bit i (nonce @ out)))
              (drop (length nonce) (flip_bit i (nonce @ out))) = Inl InvalidTag"
    by (simp add: nonce'_def data'_def fl_def)
qed

section \<open>The encryption service, step by step\<close>

lemma load_key_length: "load_key env = Inr key \<Longrightarrow> length key = 32"
  by (auto simp: load_key_def split: option.splits if_splits sum.splits)

lemma AESGCM_loaded: "load_key env = Inr key \<Longrightarrow> AESGCM key = Inr key"
  using load_key_length [of env key] by (simp add: AESGCM_def)

lemma take_drop_tag: "take (length out - 16) out @ drop (length out - 16) out = out"
  by simp

lemma encrypt_with_key:
  assumes "load_key env = Inr key"
  shows "encrypt lib env rnd plaintext =
     (case utf8_encode plaintext of
        Inl e \<Rightarrow> (Inl e, snd (token_bytes 12 rnd))
      | Inr plaintext_bytes \<Rightarrow>
          (case aesgcm_encrypt lib key (fst (token_bytes 12 rnd)) plaintext_bytes of
             Inl e \<Rightarrow> (Inl e, snd (token_bytes 12 rnd))
           | Inr out \<Rightarrow>
               (Inr \<lparr>ciphertext = b64encode (take (length out - 16) out),
                     iv = b64encode (fst (token_bytes 12 rnd)),
                     tag = b64encode (drop (length out - 16) out)\<rparr>,
                snd (token_bytes 12 rnd))))"
  by (simp add: encrypt_def assms AESGCM_loaded [OF assms] token_bytes_def Let_def
      split: sum.splits)

lemma decrypt_with_key:
  assumes "load_key env = Inr key"
  shows "decrypt lib env (b64encode c) (b64encode n) (b64encode t) =
     (case aesgcm_decrypt lib key n (c @ t) of
        Inl e \<Rightarrow> Inl e
      | Inr plaintext_bytes \<Rightarrow> utf8_decode plaintext_bytes)"
  by (simp add: decrypt_def assms AESGCM_loaded [OF assms] b64decode_b64encode)

section \<open>A concrete configuration\<close>

text \<open>
  A 32-byte key in the environment and a random source, for running the service on
  concrete inputs.
\<close>

definition example_env :: environ where
  "example_env =
     [''VAULT_ENCRYPTION_KEY'' \<mapsto>
        ascii ''603deb1015ca71be2b73aef0857d77811f352c073b6108d72d9810a30914dff4'']"

definition example_key :: bytes where
  "example_key =
     [0x60, 0x3d, 0xeb, 0x10, 0x15, 0xca, 0x71, 0xbe, 0x2b, 0x73, 0xae, 0xf0, 0x85, 0x7d,
      0x77, 0x81, 0x1f, 0x35, 0x2c, 0x07, 0x3b, 0x61, 0x08, 0xd7, 0x2d, 0x98, 0x10, 0xa3,
      0x09, 0x14, 0xdf, 0xf4]"

definition example_rnd :: entropy where
  "example_rnd i = of_nat (7 * i + 3)"

lemma load_example_key: "load_key example_env = Inr example_key"
  by (simp add: load_key_def example_env_def ascii_def example_key_def hex_digit_def py_isspace_def)

definition example_plaintext :: str where
  "example_plaintext = [104, 233, 8364, 128512]"

definition example_envelope :: envelope where
  "example_envelope =
     \<lparr>ciphertext = ascii ''Iojlr8zjoM7K0w=='',
      iv = ascii ''AwoRGB8mLTQ7QklQ'',
      tag = ascii ''CgoKCgoKCgoKCgoKCgoKAg==''\<rparr>"

lemma example_nonce:
  "fst (token_bytes 12 example_rnd) = [3, 10, 17, 24, 31, 38, 45, 52, 59, 66, 73, 80]"
  by (simp add: token_bytes_def example_rnd_def upt_rec)

lemma example_plaintext_bytes:
  "utf8_encode example_plaintext = Inr [104, 195, 169, 226, 130, 172, 240, 159, 152, 128]"
  by (simp add: example_plaintext_def utf8_char_def)

lemma example_seal:
  "aesgcm_encrypt ref_aead example_key [3, 10, 17, 24, 31, 38, 45, 52, 59, 66, 73, 80]
     [104, 195, 169, 226, 130, 172, 240, 159, 152, 128]
   = Inr [34, 136, 229, 175, 204, 227, 160, 206, 202, 211,
          10, 10, 10, 10, 10, 10, 10, 10, 10, 10, 10, 10, 10, 10, 10, 2]"
proof -
  have "replicate 15 (10 :: byte) = [10, 10, 10, 10, 10, 10, 10, 10, 10, 10, 10, 10, 10, 10, 10]"
    by (simp add: numeral_eq_Suc)
  then show ?thesis
    by (simp add: ref_aead_def ref_encrypt_def ref_seal_def ref_tag_def xor_sum_def
        example_key_def)
qed

lemma example_encrypt:
  "encrypt ref_aead example_env example_rnd example_plaintext
   = (Inr example_envelope, \<lambda>i. example_rnd (i + 12))"
proof -
  have r: "snd (token_bytes 12 example_rnd) = (\<lambda>i. example_rnd (i + 12))"
    by (simp add: token_bytes_def)
  show ?thesis
    by (simp add: encrypt_with_key [OF load_example_key] example_plaintext_bytes example_nonce
        example_seal r example_envelope_def b64encode_def table_b2a_base64_def ascii_def)
qed

section \<open>Claims about the encryption service\<close>

text \<open>
  C1 (round trip). With a valid key configured, and an AEAD primitive whose decryption
  inverts its encryption, decrypting the envelope that \<open>encrypt\<close> produced for a plaintext
  returns exactly that plaintext, for every plaintext (the empty one and long ones
  included) and every state of the random source; the \<open>/decrypt\<close> endpoint returns it too.
  \<open>encrypt\<close> produces an envelope for every plaintext that UTF-8 can encode: it raises only
  when the encoding of the plaintext raises (a lone surrogate) or the primitive itself
  refuses the data.
\<close>

theorem encrypt_decrypt_roundtrip:
  assumes key: "load_key env = Inr key"
    and inv: "aead_inverts lib key"
  shows "case fst (encrypt lib env rnd plaintext) of
           Inr d \<Rightarrow>
             decrypt lib env (ciphertext d) (iv d) (tag d) = Inr plaintext
             \<and> decrypt_endpoint lib env d = Return plaintext
         | Inl e \<Rightarrow>
             utf8_encode plaintext = Inl e
             \<or> (\<exists>plaintext_bytes. utf8_encode plaintext = Inr plaintext_bytes
                  \<and> aesgcm_encrypt lib key (fst (token_bytes 12 rnd)) plaintext_bytes = Inl e)"
proof (cases "utf8_encode plaintext")
  case (Inl e)
  then show ?thesis by (simp add: encrypt_with_key [OF key])
next
  case (Inr pb)
  show ?thesis
  proof (cases "aesgcm_encrypt lib key (fst (token_bytes 12 rnd)) pb")
    case (Inl e)
    then show ?thesis using Inr by (simp add: encrypt_with_key [OF key])
  next
    case out: (Inr out)
    have dec: "aesgcm_decrypt lib key (fst (token_bytes 12 rnd)) out = Inr pb"
      using inv out by (simp add: aead_inverts_def)
    have "decrypt lib env (b64encode (take (length out - 16) out))
            (b64encode (fst (token_bytes 12 rnd))) (b64encode (drop (length out - 16) out))
          = Inr plaintext"
      by (simp add: decrypt_with_key [OF key] dec utf8_decode_encode [OF Inr])
    then show ?thesis
      using Inr out by (simp add: encrypt_with_key [OF key] decrypt_endpoint_def)
  qed
qed

theorem encrypt_decrypt_roundtrip_witness:
  "load_key example_env = Inr example_key
   \<and> aead_inverts ref_aead example_key
   \<and> fst (encrypt ref_aead example_env example_rnd example_plaintext) = Inr example_envelope
   \<and> decrypt ref_aead example_env (ciphertext example_envelope) (iv example_envelope)
        (tag example_envelope) = Inr example_plaintext
   \<and> decrypt_endpoint ref_aead example_env example_envelope = Return example_plaintext"
  using encrypt_decrypt_roundtrip [OF load_example_key ref_aead_inverts,
      where rnd = example_rnd and plaintext = example_plaintext]
  by (simp add: example_encrypt load_example_key ref_aead_inverts)

lemma encrypt_returns:
  assumes key: "load_key env = Inr key"
    and enc: "encrypt lib env rnd plaintext = (Inr d, rnd')"
  obtains plaintext_bytes out where
    "utf8_encode plaintext = Inr plaintext_bytes"
    "aesgcm_encrypt lib key (fst (token_bytes 12 rnd)) plaintext_bytes = Inr out"
    "d = \<lparr>ciphertext = b64encode (take (length out - 16) out),
          iv = b64encode (fst (token_bytes 12 rnd)),
          tag = b64encode (drop (length out - 16) out)\<rparr>"
    "rnd' = snd (token_bytes 12 rnd)"
  using enc unfolding encrypt_with_key [OF key]
  by (auto split: sum.splits)

lemma encrypt_needs_key:
  assumes "encrypt lib env rnd plaintext = (Inr d, rnd')"
  obtains key where "load_key env = Inr key"
  using assms by (cases "load_key env") (auto simp: encrypt_def)

lemma length_token_bytes: "length (fst (token_bytes n rnd)) = n"
  by (simp add: token_bytes_def)

text \<open>
  C10 (envelope shape). For every plaintext the envelope returned by \<open>encrypt\<close> holds a
  ciphertext that decodes to exactly as many bytes as the UTF-8 encoding of the plaintext
  has, a nonce of exactly 12 bytes and a tag of exactly 16 bytes, given that the AEAD
  primitive returns the ciphertext, as long as the data, followed by a 16-byte tag. No
  padding is applied: the ciphertext length is the plaintext length.
\<close>

theorem envelope_shape:
  assumes key: "load_key env = Inr key"
    and app: "aead_appends_tag lib key"
    and enc: "encrypt lib env rnd plaintext = (Inr d, rnd')"
  shows "(\<exists>plaintext_bytes. utf8_encode plaintext = Inr plaintext_bytes
            \<and> map_sum id length (b64decode (ciphertext d)) = Inr (length plaintext_bytes))
         \<and> map_sum id length (b64decode (iv d)) = Inr 12
         \<and> map_sum id length (b64decode (tag d)) = Inr 16"
proof -
  from encrypt_returns [OF key enc] obtain pb out where
    pb: "utf8_encode plaintext = Inr pb"
    and out: "aesgcm_encrypt lib key (fst (token_bytes 12 rnd)) pb = Inr out"
    and d: "d = \<lparr>ciphertext = b64encode (take (length out - 16) out),
          iv = b64encode (fst (token_bytes 12 rnd)),
          tag = b64encode (drop (length out - 16) out)\<rparr>"
    by blast
  have len: "length out = length pb + 16"
    using app out by (simp add: aead_appends_tag_def)
  show ?thesis
    by (simp add: d pb b64decode_b64encode len length_token_bytes)
qed

theorem envelope_shape_witness:
  "load_key example_env = Inr example_key
   \<and> aead_appends_tag ref_aead example_key
   \<and> encrypt ref_aead example_env example_rnd example_plaintext
       = (Inr example_envelope, \<lambda>i. example_rnd (i + 12))
   \<and> utf8_encode example_plaintext = Inr [104, 195, 169, 226, 130, 172, 240, 159, 152, 128]
   \<and> map_sum id length (b64decode (ciphertext example_envelope)) = Inr 10
   \<and> map_sum id length (b64decode (iv example_envelope)) = Inr 12
   \<and> map_sum id length (b64decode (tag example_envelope)) = Inr 16"
  using envelope_shape [OF load_example_key ref_aead_appends_tag example_encrypt]
  by (simp add: load_example_key ref_aead_appends_tag example_encrypt example_plaintext_bytes)

text \<open>
  C8 (nonce freshness). The nonce of an envelope is the next 12 bytes of the random
  source, whatever the plaintext, the key and the AEAD primitive are: it is not derived
  from the plaintext or the key, and the source is left 12 bytes further on. Two calls
  on the same source state get the same nonce, so the nonce depends on nothing but the
  source; a second call after the first reads the following 12 bytes, and its nonce
  differs from the first exactly when those bytes differ. (That ciphertexts and tags
  then differ as well is a property of the AEAD primitive, not of this code.)
\<close>

theorem nonce_from_random_source:
  assumes enc: "encrypt lib env rnd plaintext = (Inr d, rnd')"
  shows "b64decode (iv d) = Inr (map rnd [0..<12])
         \<and> rnd' = (\<lambda>i. rnd (i + 12))
         \<and> (\<forall>lib2 env2 plaintext2 d2 r2.
               encrypt lib2 env2 rnd plaintext2 = (Inr d2, r2) \<longrightarrow> iv d2 = iv d)
         \<and> (\<forall>d2 r2. encrypt lib env rnd' plaintext = (Inr d2, r2)
               \<longrightarrow> (iv d2 = iv d \<longleftrightarrow> map rnd [12..<24] = map rnd [0..<12]))"
proof -
  have iv_of: "iv d' = b64encode (map r [0..<12]) \<and> r' = (\<lambda>i. r (i + 12))"
    if run: "encrypt l e r p = (Inr d', r')" for l e r p d' r'
  proof -
    obtain k where k: "load_key e = Inr k"
      using encrypt_needs_key [OF run] by blast
    obtain pb out where
      "d' = \<lparr>ciphertext = b64encode (take (length out - 16) out),
            iv = b64encode (fst (token_bytes 12 r)),
            tag = b64encode (drop (length out - 16) out)\<rparr>"
      "r' = snd (token_bytes 12 r)"
      using encrypt_returns [OF k run] by blast
    then show ?thesis by (simp add: token_bytes_def)
  qed
  have "map (\<lambda>i. rnd (i + 12)) [0..<12] = map rnd (map (\<lambda>i. i + 12) [0..<12])"
    by (simp only: map_map comp_def)
  also have "\<dots> = map rnd [12..<24]"
    by (simp only: map_add_upt) simp
  finally have shift: "map (\<lambda>i. rnd (i + 12)) [0..<12] = map rnd [12..<24]" .
  show ?thesis
  proof (intro conjI allI impI)
    show "b64decode (iv d) = Inr (map rnd [0..<12])"
      using iv_of [OF enc] by (simp add: b64decode_b64encode)
    show "rnd' = (\<lambda>i. rnd (i + 12))" using iv_of [OF enc] by simp
  next
    fix lib2 env2 plaintext2 d2 r2
    assume "encrypt lib2 env2 rnd plaintext2 = (Inr d2, r2)"
    from iv_of [OF this] iv_of [OF enc] show "iv d2 = iv d" by simp
  next
    fix d2 r2
    assume "encrypt lib env rnd' plaintext = (Inr d2, r2)"
    then have run2: "encrypt lib env (\<lambda>i. rnd (i + 12)) plaintext = (Inr d2, r2)"
      using iv_of [OF enc] by simp
    have "iv d2 = b64encode (map rnd [12..<24])"
      using iv_of [OF run2] by (simp only: shift)
    moreover have "iv d = b64encode (map rnd [0..<12])"
      using iv_of [OF enc] by simp
    ultimately show "iv d2 = iv d \<longleftrightarrow> map rnd [12..<24] = map rnd [0..<12]"
      using b64encode_inj [of "map rnd [12..<24]" "map rnd [0..<12]"] by auto
  qed
qed


definition example_envelope2 :: envelope where
  "example_envelope2 =
     \<lparr>ciphertext = ascii ''QuiFz6yDwK6qsw=='',
      iv = ascii ''V15lbHN6gYiPlp2k'',
      tag = ascii ''CgoKCgoKCgoKCgoKCgoKog==''\<rparr>"

lemma example_encrypt2:
  "encrypt ref_aead example_env (\<lambda>i. example_rnd (i + 12)) example_plaintext
   = (Inr example_envelope2, \<lambda>i. example_rnd (i + 24))"
proof -
  have n: "fst (token_bytes 12 (\<lambda>i. example_rnd (i + 12)))
           = [87, 94, 101, 108, 115, 122, 129, 136, 143, 150, 157, 164]"
    by (simp add: token_bytes_def example_rnd_def upt_rec)
  have r: "snd (token_bytes 12 (\<lambda>i. example_rnd (i + 12))) = (\<lambda>i. example_rnd (i + 24))"
    by (simp add: token_bytes_def add.assoc)
  have "replicate 15 (10 :: byte) = [10, 10, 10, 10, 10, 10, 10, 10, 10, 10, 10, 10, 10, 10, 10]"
    by (simp add: numeral_eq_Suc)
  then have s: "aesgcm_encrypt ref_aead example_key
       [87, 94, 101, 108, 115, 122, 129, 136, 143, 150, 157, 164]
       [104, 195, 169, 226, 130, 172, 240, 159, 152, 128]
     = Inr [66, 232, 133, 207, 172, 131, 192, 174, 170, 179,
            10, 10, 10, 10, 10, 10, 10, 10, 10, 10, 10, 10, 10, 10, 10, 162]"
    by (simp add: ref_aead_def ref_encrypt_def ref_seal_def ref_tag_def xor_sum_def
        example_key_def)
  show ?thesis
    by (simp add: encrypt_with_key [OF load_example_key] example_plaintext_bytes n s r
        example_envelope2_def b64encode_def table_b2a_base64_def ascii_def)
qed

theorem nonce_from_random_source_witness:
  "encrypt ref_aead example_env example_rnd example_plaintext
     = (Inr example_envelope, \<lambda>i. example_rnd (i + 12))
   \<and> b64decode (iv example_envelope) = Inr [3, 10, 17, 24, 31, 38, 45, 52, 59, 66, 73, 80]
   \<and> encrypt ref_aead example_env (\<lambda>i. example_rnd (i + 12)) example_plaintext
     = (Inr example_envelope2, \<lambda>i. example_rnd (i + 24))
   \<and> iv example_envelope2 \<noteq> iv example_envelope"
proof -
  have a: "map example_rnd [0..<12] = [3, 10, 17, 24, 31, 38, 45, 52, 59, 66, 73, 80]"
    by (simp add: example_rnd_def upt_rec)
  have b: "map example_rnd [12..<24] = [87, 94, 101, 108, 115, 122, 129, 136, 143, 150, 157, 164]"
    by (simp add: example_rnd_def upt_rec)
  from nonce_from_random_source [OF example_encrypt]
  have first: "b64decode (iv example_envelope) = Inr (map example_rnd [0..<12])"
    and "\<forall>d2 r2. encrypt ref_aead example_env (\<lambda>i. example_rnd (i + 12)) example_plaintext
            = (Inr d2, r2)
          \<longrightarrow> (iv d2 = iv example_envelope
                \<longleftrightarrow> map example_rnd [12..<24] = map example_rnd [0..<12])"
    by blast+
  then have "iv example_envelope2 = iv example_envelope
      \<longleftrightarrow> map example_rnd [12..<24] = map example_rnd [0..<12]"
    using example_encrypt2 by blast
  then have "iv example_envelope2 \<noteq> iv example_envelope"
    unfolding a b by simp
  moreover have "b64decode (iv example_envelope)
      = Inr [3, 10, 17, 24, 31, 38, 45, 52, 59, 66, 73, 80]"
    using first unfolding a .
  ultimately show ?thesis
    using example_encrypt example_encrypt2 by simp
qed

section \<open>Tampering with an envelope\<close>

text \<open>
  The fields of an envelope are base64 text of bytes. \<open>field_bits\<close> is the number of bits a
  field carries; \<open>flip_field i\<close> flips bit \<open>i\<close> of the bytes the field carries and encodes
  them again. \<open>tamper_response\<close> is what the \<open>/decrypt\<close> endpoint answers on \<open>InvalidTag\<close>.
\<close>

definition field_bits :: "str \<Rightarrow> nat" where
  "field_bits field = (case b64decode field of Inl e \<Rightarrow> 0 | Inr bs \<Rightarrow> 8 * length bs)"

definition flip_field :: "nat \<Rightarrow> str \<Rightarrow> str" where
  "flip_field i field =
     (case b64decode field of Inl e \<Rightarrow> field | Inr bs \<Rightarrow> b64encode (flip_bit i bs))"

definition tamper_response :: "str outcome" where
  "tamper_response =
     HTTPException 422 (Detail
       ''Decryption failed: authentication tag invalid. Data may have been tampered with.'')"

lemma field_bits_b64encode: "field_bits (b64encode bs) = 8 * length bs"
  by (simp add: field_bits_def b64decode_b64encode)

lemma flip_field_b64encode: "flip_field i (b64encode bs) = b64encode (flip_bit i bs)"
  by (simp add: flip_field_def b64decode_b64encode)

lemma decrypt_endpoint_InvalidTag:
  "decrypt lib env (ciphertext req) (iv req) (tag req) = Inl InvalidTag
   \<Longrightarrow> decrypt_endpoint lib env req = tamper_response"
  by (simp add: decrypt_endpoint_def tamper_response_def)

lemma rejects_flipped_parts:
  assumes rej: "aead_rejects_bit_flips lib key"
    and out: "aesgcm_encrypt lib key n data = Inr (c @ t)"
  shows "i < 8 * length c \<Longrightarrow> aesgcm_decrypt lib key n (flip_bit i c @ t) = Inl InvalidTag"
    and "i < 8 * length n \<Longrightarrow> aesgcm_decrypt lib key (flip_bit i n) (c @ t) = Inl InvalidTag"
    and "i < 8 * length t \<Longrightarrow> aesgcm_decrypt lib key n (c @ flip_bit i t) = Inl InvalidTag"
proof -
  have r: "aesgcm_decrypt lib key
              (take (length n) (flip_bit j (n @ c @ t)))
              (drop (length n) (flip_bit j (n @ c @ t))) = Inl InvalidTag"
    if "j < 8 * (length n + length (c @ t))" for j
    using rej out that unfolding aead_rejects_bit_flips_def by blast
  {
    assume i: "i < 8 * length c"
    have "flip_bit (8 * length n + i) (n @ c @ t) = n @ flip_bit i (c @ t)"
      using flip_bit_append_right [of n "8 * length n + i" "c @ t"] by simp
    also have "\<dots> = n @ flip_bit i c @ t"
      using flip_bit_append_left [OF i, of t] by simp
    finally have "flip_bit (8 * length n + i) (n @ c @ t) = n @ flip_bit i c @ t" .
    moreover have "8 * length n + i < 8 * (length n + length (c @ t))" using i by simp
    ultimately show "aesgcm_decrypt lib key n (flip_bit i c @ t) = Inl InvalidTag"
      using r [of "8 * length n + i"] by simp
  }
  {
    assume i: "i < 8 * length n"
    have "flip_bit i (n @ c @ t) = flip_bit i n @ c @ t"
      using flip_bit_append_left [OF i, of "c @ t"] by simp
    moreover have "i < 8 * (length n + length (c @ t))" using i by simp
    ultimately show "aesgcm_decrypt lib key (flip_bit i n) (c @ t) = Inl InvalidTag"
      using r [of i] by (simp add: length_flip_bit)
  }
  {
    assume i: "i < 8 * length t"
    have "flip_bit (8 * length (n @ c) + i) ((n @ c) @ t) = (n @ c) @ flip_bit i t"
      using flip_bit_append_right [of "n @ c" "8 * length (n @ c) + i" t] by simp
    then have "flip_bit (8 * length n + 8 * length c + i) (n @ c @ t) = n @ c @ flip_bit i t"
      by simp
    moreover have "8 * length n + 8 * length c + i < 8 * (length n + length (c @ t))"
      using i by simp
    ultimately show "aesgcm_decrypt lib key n (c @ flip_bit i t) = Inl InvalidTag"
      using r [of "8 * length n + 8 * length c + i"] by simp
  }
qed

text \<open>
  C2 (tamper detection). For every envelope produced by \<open>encrypt\<close>, flipping any single bit
  of the bytes of its ciphertext, of its nonce or of its tag makes \<open>decrypt\<close> raise
  \<open>InvalidTag\<close> (the AEAD tag mismatch, which the endpoint answers with 422 and not with
  the 400 of a decoding error), and no plaintext is returned. The detection itself is the
  AEAD primitive's: it is assumed to reject a single flipped bit in nonce, ciphertext or
  tag; the theorem is that the service hands the three fields to the primitive in the
  right places and lets its \<open>InvalidTag\<close> through unchanged.
\<close>

theorem tamper_detection:
  assumes key: "load_key env = Inr key"
    and rej: "aead_rejects_bit_flips lib key"
    and enc: "encrypt lib env rnd plaintext = (Inr d, rnd')"
  shows "(i < field_bits (ciphertext d) \<longrightarrow>
            decrypt lib env (flip_field i (ciphertext d)) (iv d) (tag d) = Inl InvalidTag
            \<and> decrypt_endpoint lib env (d\<lparr>ciphertext := flip_field i (ciphertext d)\<rparr>)
                = tamper_response)
         \<and> (i < field_bits (iv d) \<longrightarrow>
            decrypt lib env (ciphertext d) (flip_field i (iv d)) (tag d) = Inl InvalidTag
            \<and> decrypt_endpoint lib env (d\<lparr>iv := flip_field i (iv d)\<rparr>) = tamper_response)
         \<and> (i < field_bits (tag d) \<longrightarrow>
            decrypt lib env (ciphertext d) (iv d) (flip_field i (tag d)) = Inl InvalidTag
            \<and> decrypt_endpoint lib env (d\<lparr>tag := flip_field i (tag d)\<rparr>) = tamper_response)"
proof -
  from encrypt_returns [OF key enc] obtain pb out where
    out: "aesgcm_encrypt lib key (fst (token_bytes 12 rnd)) pb = Inr out"
    and d: "d = \<lparr>ciphertext = b64encode (take (length out - 16) out),
          iv = b64encode (fst (token_bytes 12 rnd)),
          tag = b64encode (drop (length out - 16) out)\<rparr>"
    by blast
  define c where "c = take (length out - 16) out"
  define t where "t = drop (length out - 16) out"
  define n where "n = fst (token_bytes 12 rnd)"
  have out': "aesgcm_encrypt lib key n pb = Inr (c @ t)"
    using out by (simp add: c_def t_def n_def)
  have d': "d = \<lparr>ciphertext = b64encode c, iv = b64encode n, tag = b64encode t\<rparr>"
    using d by (simp add: c_def t_def n_def)
  note rj = rejects_flipped_parts [OF rej out']
  have 1: "decrypt lib env (flip_field i (ciphertext d)) (iv d) (tag d) = Inl InvalidTag"
    if "i < field_bits (ciphertext d)"
    using that rj(1) [of i]
    by (simp add: d' field_bits_b64encode flip_field_b64encode decrypt_with_key [OF key])
  have 2: "decrypt lib env (ciphertext d) (flip_field i (iv d)) (tag d) = Inl InvalidTag"
    if "i < field_bits (iv d)"
    using that rj(2) [of i]
    by (simp add: d' field_bits_b64encode flip_field_b64encode decrypt_with_key [OF key])
  have 3: "decrypt lib env (ciphertext d) (iv d) (flip_field i (tag d)) = Inl InvalidTag"
    if "i < field_bits (tag d)"
    using that rj(3) [of i]
    by (simp add: d' field_bits_b64encode flip_field_b64encode decrypt_with_key [OF key])
  show ?thesis
    using 1 2 3 by (simp add: decrypt_endpoint_InvalidTag)
qed


lemma example_envelope_bytes:
  "ciphertext example_envelope = b64encode [34, 136, 229, 175, 204, 227, 160, 206, 202, 211]"
  "iv example_envelope = b64encode [3, 10, 17, 24, 31, 38, 45, 52, 59, 66, 73, 80]"
  "tag example_envelope = b64encode [10, 10, 10, 10, 10, 10, 10, 10, 10, 10, 10, 10, 10, 10, 10, 2]"
  by (simp_all add: example_envelope_def b64encode_def table_b2a_base64_def ascii_def)

lemma example_flips:
  "flip_field 0 (ciphertext example_envelope) = ascii ''I4jlr8zjoM7K0w==''"
  "flip_field 95 (iv example_envelope) = ascii ''AwoRGB8mLTQ7QknQ''"
  "flip_field 127 (tag example_envelope) = ascii ''CgoKCgoKCgoKCgoKCgoKgg==''"
  unfolding example_envelope_bytes flip_field_b64encode
  by (simp_all add: flip_bit_def b64encode_def table_b2a_base64_def ascii_def)

theorem tamper_detection_witness:
  "load_key example_env = Inr example_key
   \<and> aead_rejects_bit_flips ref_aead example_key
   \<and> encrypt ref_aead example_env example_rnd example_plaintext
       = (Inr example_envelope, \<lambda>i. example_rnd (i + 12))
   \<and> field_bits (ciphertext example_envelope) = 80
   \<and> decrypt ref_aead example_env (ascii ''I4jlr8zjoM7K0w=='') (iv example_envelope)
        (tag example_envelope) = Inl InvalidTag
   \<and> decrypt_endpoint ref_aead example_env
        (example_envelope\<lparr>ciphertext := ascii ''I4jlr8zjoM7K0w==''\<rparr>) = tamper_response
   \<and> field_bits (iv example_envelope) = 96
   \<and> decrypt ref_aead example_env (ciphertext example_envelope) (ascii ''AwoRGB8mLTQ7QknQ'')
        (tag example_envelope) = Inl InvalidTag
   \<and> field_bits (tag example_envelope) = 128
   \<and> decrypt ref_aead example_env (ciphertext example_envelope) (iv example_envelope)
        (ascii ''CgoKCgoKCgoKCgoKCgoKgg=='') = Inl InvalidTag"
proof -
  have bits: "field_bits (ciphertext example_envelope) = 80"
    "field_bits (iv example_envelope) = 96" "field_bits (tag example_envelope) = 128"
    unfolding example_envelope_bytes field_bits_b64encode by simp_all
  note t = tamper_detection [OF load_example_key ref_aead_rejects_bit_flips example_encrypt]
  from t [of 0] t [of 95] t [of 127] show ?thesis
    by (simp add: bits example_flips load_example_key ref_aead_rejects_bit_flips
        example_encrypt)
qed

section \<open>What \<open>decrypt\<close> checks of an envelope\<close>

lemma a2b_loop_error: "a2b_loop q l p s out = Inl e \<Longrightarrow> e = BinasciiError"
proof (induction q l p s out rule: a2b_loop.induct)
  case (1 quad_pos leftchar pads out)
  then show ?case by (simp split: if_splits)
next
  case (2 quad_pos leftchar pads this_ch rest out)
  show ?case
  proof (cases "this_ch = 61")
    case True
    with 2 show ?thesis by (simp split: if_splits)
  next
    case False
    show ?thesis
    proof (cases "table_a2b_base64 this_ch")
      case None
      with 2 False show ?thesis by simp
    next
      case (Some v)
      with 2 False show ?thesis by (simp split: if_splits)
    qed
  qed
qed

lemma b64decode_error: "b64decode s = Inl e \<Longrightarrow> e = ValueError \<or> e = BinasciiError"
  by (auto simp: b64decode_def dest: a2b_loop_error split: if_splits)

text \<open>
  Two envelopes made from \<open>example_envelope\<close>, which \<open>encrypt\<close> returned: in the first the
  last byte of the ciphertext is moved to the front of the tag (9 and 17 bytes, the same
  bytes in the same order); in the second one byte is appended to the nonce (13 bytes).
\<close>

definition resplit_envelope :: envelope where
  "resplit_envelope =
     \<lparr>ciphertext = ascii ''Iojlr8zjoM7K'',
      iv = ascii ''AwoRGB8mLTQ7QklQ'',
      tag = ascii ''0woKCgoKCgoKCgoKCgoKCgI=''\<rparr>"

definition long_nonce_envelope :: envelope where
  "long_nonce_envelope =
     \<lparr>ciphertext = ascii ''Iojlr8zjoM7K0w=='',
      iv = ascii ''AwoRGB8mLTQ7QklQAQ=='',
      tag = ascii ''CgoKCgoKCgoKCgoKCgoKAg==''\<rparr>"

lemma resplit_envelope_bytes:
  "ciphertext resplit_envelope = b64encode [34, 136, 229, 175, 204, 227, 160, 206, 202]"
  "iv resplit_envelope = b64encode [3, 10, 17, 24, 31, 38, 45, 52, 59, 66, 73, 80]"
  "tag resplit_envelope
     = b64encode [211, 10, 10, 10, 10, 10, 10, 10, 10, 10, 10, 10, 10, 10, 10, 10, 2]"
  by (simp_all add: resplit_envelope_def b64encode_def table_b2a_base64_def ascii_def)

lemma long_nonce_envelope_bytes:
  "ciphertext long_nonce_envelope
     = b64encode [34, 136, 229, 175, 204, 227, 160, 206, 202, 211]"
  "iv long_nonce_envelope = b64encode [3, 10, 17, 24, 31, 38, 45, 52, 59, 66, 73, 80, 1]"
  "tag long_nonce_envelope
     = b64encode [10, 10, 10, 10, 10, 10, 10, 10, 10, 10, 10, 10, 10, 10, 10, 2]"
  by (simp_all add: long_nonce_envelope_def b64encode_def table_b2a_base64_def ascii_def)

lemma example_open:
  "aesgcm_decrypt ref_aead example_key [3, 10, 17, 24, 31, 38, 45, 52, 59, 66, 73, 80]
     [34, 136, 229, 175, 204, 227, 160, 206, 202, 211,
      10, 10, 10, 10, 10, 10, 10, 10, 10, 10, 10, 10, 10, 10, 10, 2]
   = Inr [104, 195, 169, 226, 130, 172, 240, 159, 152, 128]"
  using ref_aead_inverts [of example_key] example_seal
  unfolding aead_inverts_def by blast

lemma example_open_long_nonce:
  "aesgcm_decrypt ref_aead example_key [3, 10, 17, 24, 31, 38, 45, 52, 59, 66, 73, 80, 1]
     [34, 136, 229, 175, 204, 227, 160, 206, 202, 211,
      10, 10, 10, 10, 10, 10, 10, 10, 10, 10, 10, 10, 10, 10, 10, 2]
   = Inl InvalidTag"
proof -
  have "replicate 15 (10 :: byte) = [10, 10, 10, 10, 10, 10, 10, 10, 10, 10, 10, 10, 10, 10, 10]"
    by (simp add: numeral_eq_Suc)
  then show ?thesis
    by (simp add: ref_aead_def ref_decrypt_def ref_tag_def xor_sum_def example_key_def)
qed

lemma example_plaintext_decoded:
  "utf8_decode [104, 195, 169, 226, 130, 172, 240, 159, 152, 128] = Inr example_plaintext"
  using utf8_decode_encode [OF example_plaintext_bytes] .

text \<open>
  C9, as stated, fails: an envelope whose tag decodes to 17 bytes (and whose ciphertext
  and tag together are the bytes \<open>encrypt\<close> produced) is decrypted and its plaintext
  returned; an envelope whose nonce decodes to 13 bytes is answered with \<open>InvalidTag\<close> (422),
  the very error kind the claim sets decoding errors apart from.
\<close>

theorem decrypt_wrong_lengths_counterexample:
  "map_sum id length (b64decode (tag resplit_envelope)) = Inr 17
   \<and> decrypt ref_aead example_env (ciphertext resplit_envelope) (iv resplit_envelope)
        (tag resplit_envelope) = Inr example_plaintext
   \<and> decrypt_endpoint ref_aead example_env resplit_envelope = Return example_plaintext
   \<and> map_sum id length (b64decode (iv long_nonce_envelope)) = Inr 13
   \<and> decrypt ref_aead example_env (ciphertext long_nonce_envelope) (iv long_nonce_envelope)
        (tag long_nonce_envelope) = Inl InvalidTag
   \<and> decrypt_endpoint ref_aead example_env long_nonce_envelope = tamper_response"
proof -
  have 1: "decrypt ref_aead example_env (ciphertext resplit_envelope) (iv resplit_envelope)
        (tag resplit_envelope) = Inr example_plaintext"
    unfolding resplit_envelope_bytes decrypt_with_key [OF load_example_key]
    by (simp add: example_open example_plaintext_decoded)
  have 2: "decrypt ref_aead example_env (ciphertext long_nonce_envelope)
        (iv long_nonce_envelope) (tag long_nonce_envelope) = Inl InvalidTag"
    unfolding long_nonce_envelope_bytes decrypt_with_key [OF load_example_key]
    by (simp add: example_open_long_nonce)
  have 3: "map_sum id length (b64decode (tag resplit_envelope)) = Inr 17"
    "map_sum id length (b64decode (iv long_nonce_envelope)) = Inr 13"
    unfolding resplit_envelope_bytes long_nonce_envelope_bytes b64decode_b64encode
    by simp_all
  show ?thesis
    using 1 2 3 by (simp add: decrypt_endpoint_def tamper_response_def)
qed

text \<open>
  C9, amended. With a valid key configured: an envelope with a field that is not valid
  transport encoding (text outside ASCII, or base64 data that stops inside a group of
  four) makes \<open>decrypt\<close> raise a decoding error (\<open>ValueError\<close> or \<open>binascii.Error\<close>), which is
  not \<open>InvalidTag\<close> and which the endpoint answers with 400; no plaintext is returned.
  \<open>decrypt\<close> checks no decoded length itself: when the three fields decode, its result is
  the AEAD primitive's on the decoded nonce and the decoded ciphertext followed by the
  decoded tag, so two envelopes with the same nonce whose ciphertext and tag concatenate
  to the same bytes get the same result. The ciphertext length is unconstrained.
\<close>

theorem decrypt_envelope_checks:
  assumes key: "load_key env = Inr key"
  shows "(isl (b64decode c64) \<or> isl (b64decode n64) \<or> isl (b64decode t64) \<longrightarrow>
            (\<exists>e. decrypt lib env c64 n64 t64 = Inl e
                 \<and> (e = ValueError \<or> e = BinasciiError)
                 \<and> decrypt_endpoint lib env \<lparr>ciphertext = c64, iv = n64, tag = t64\<rparr>
                     = HTTPException 400 (DetailOf ''Decryption error: '' e)))
         \<and> (b64decode c64 = Inr c \<and> b64decode n64 = Inr n \<and> b64decode t64 = Inr t \<longrightarrow>
              decrypt lib env c64 n64 t64
                = (case aesgcm_decrypt lib key n (c @ t) of
                     Inl e \<Rightarrow> Inl e
                   | Inr plaintext_bytes \<Rightarrow> utf8_decode plaintext_bytes)
              \<and> (\<forall>c64' t64' c' t'.
                    b64decode c64' = Inr c' \<and> b64decode t64' = Inr t' \<and> c' @ t' = c @ t
                    \<longrightarrow> decrypt lib env c64' n64 t64' = decrypt lib env c64 n64 t64))"
proof (intro conjI impI)
  assume bad: "isl (b64decode c64) \<or> isl (b64decode n64) \<or> isl (b64decode t64)"
  have "\<exists>e. decrypt lib env c64 n64 t64 = Inl e \<and> (e = ValueError \<or> e = BinasciiError)"
  proof (cases "b64decode c64")
    case (Inl e)
    then show ?thesis
      using b64decode_error [OF Inl] by (simp add: decrypt_def key AESGCM_loaded [OF key])
  next
    case c: (Inr c)
    show ?thesis
    proof (cases "b64decode n64")
      case (Inl e)
      then show ?thesis
        using b64decode_error [OF Inl] c
        by (simp add: decrypt_def key AESGCM_loaded [OF key])
    next
      case n: (Inr n)
      from bad c n obtain e where t: "b64decode t64 = Inl e"
        by (cases "b64decode t64") auto
      then show ?thesis
        using b64decode_error [OF t] c n
        by (simp add: decrypt_def key AESGCM_loaded [OF key])
    qed
  qed
  then show "\<exists>e. decrypt lib env c64 n64 t64 = Inl e
                 \<and> (e = ValueError \<or> e = BinasciiError)
                 \<and> decrypt_endpoint lib env \<lparr>ciphertext = c64, iv = n64, tag = t64\<rparr>
                     = HTTPException 400 (DetailOf ''Decryption error: '' e)"
    by (auto simp: decrypt_endpoint_def)
next
  assume ok: "b64decode c64 = Inr c \<and> b64decode n64 = Inr n \<and> b64decode t64 = Inr t"
  then show "decrypt lib env c64 n64 t64
                = (case aesgcm_decrypt lib key n (c @ t) of
                     Inl e \<Rightarrow> Inl e
                   | Inr plaintext_bytes \<Rightarrow> utf8_decode plaintext_bytes)"
    by (simp add: decrypt_def key AESGCM_loaded [OF key])
  show "\<forall>c64' t64' c' t'.
          b64decode c64' = Inr c' \<and> b64decode t64' = Inr t' \<and> c' @ t' = c @ t
          \<longrightarrow> decrypt lib env c64' n64 t64' = decrypt lib env c64 n64 t64"
    using ok by (simp add: decrypt_def key AESGCM_loaded [OF key])
qed


lemma b64decode_one_char: "b64decode (ascii ''A'') = Inl BinasciiError"
  by (simp add: b64decode_def ascii_def table_a2b_base64_def)

theorem decrypt_envelope_checks_witness:
  "load_key example_env = Inr example_key
   \<and> isl (b64decode (ascii ''A''))
   \<and> decrypt ref_aead example_env (ascii ''A'') (iv example_envelope) (tag example_envelope)
       = Inl BinasciiError
   \<and> decrypt_endpoint ref_aead example_env
        \<lparr>ciphertext = ascii ''A'', iv = iv example_envelope, tag = tag example_envelope\<rparr>
       = HTTPException 400 (DetailOf ''Decryption error: '' BinasciiError)
   \<and> decrypt ref_aead example_env (ciphertext resplit_envelope) (iv example_envelope)
        (tag resplit_envelope)
       = decrypt ref_aead example_env (ciphertext example_envelope) (iv example_envelope)
           (tag example_envelope)"
proof -
  note t = decrypt_envelope_checks [OF load_example_key, where lib = ref_aead]
  have bad: "isl (b64decode (ascii ''A''))" by (simp add: b64decode_one_char)
  have run: "decrypt ref_aead example_env (ascii ''A'') (iv example_envelope)
      (tag example_envelope) = Inl BinasciiError"
    by (simp add: decrypt_def load_example_key AESGCM_loaded [OF load_example_key]
        b64decode_one_char)
  from t [where ?c64.0 = "ascii ''A''" and ?n64.0 = "iv example_envelope"
      and ?t64.0 = "tag example_envelope"] bad run
  have ep: "decrypt_endpoint ref_aead example_env
        \<lparr>ciphertext = ascii ''A'', iv = iv example_envelope, tag = tag example_envelope\<rparr>
       = HTTPException 400 (DetailOf ''Decryption error: '' BinasciiError)"
    by auto
  have dec: "b64decode (ciphertext example_envelope)
        = Inr [34, 136, 229, 175, 204, 227, 160, 206, 202, 211]
      \<and> b64decode (iv example_envelope) = Inr [3, 10, 17, 24, 31, 38, 45, 52, 59, 66, 73, 80]
      \<and> b64decode (tag example_envelope)
        = Inr [10, 10, 10, 10, 10, 10, 10, 10, 10, 10, 10, 10, 10, 10, 10, 2]"
    unfolding example_envelope_bytes b64decode_b64encode by simp
  have dec': "b64decode (ciphertext resplit_envelope)
        = Inr [34, 136, 229, 175, 204, 227, 160, 206, 202]
      \<and> b64decode (tag resplit_envelope)
        = Inr [211, 10, 10, 10, 10, 10, 10, 10, 10, 10, 10, 10, 10, 10, 10, 10, 2]
      \<and> [34, 136, 229, 175, 204, 227, 160, 206, 202]
          @ [211, 10, 10, 10, 10, 10, 10, 10, 10, 10, 10, 10, 10, 10, 10, 10, 2]
        = [34, 136, 229, 175, 204, 227, 160, 206, 202, 211 :: byte]
          @ [10, 10, 10, 10, 10, 10, 10, 10, 10, 10, 10, 10, 10, 10, 10, 2]"
    unfolding resplit_envelope_bytes b64decode_b64encode by simp
  from t [where ?c64.0 = "ciphertext example_envelope" and ?n64.0 = "iv example_envelope"
      and ?t64.0 = "tag example_envelope"
      and c = "[34, 136, 229, 175, 204, 227, 160, 206, 202, 211]"
      and n = "[3, 10, 17, 24, 31, 38, 45, 52, 59, 66, 73, 80]"
      and t = "[10, 10, 10, 10, 10, 10, 10, 10, 10, 10, 10, 10, 10, 10, 10, 2]"] dec
  have "\<forall>c64' t64' c' t'.
          b64decode c64' = Inr c' \<and> b64decode t64' = Inr t'
          \<and> c' @ t' = [34, 136, 229, 175, 204, 227, 160, 206, 202, 211]
                 @ [10, 10, 10, 10, 10, 10, 10, 10, 10, 10, 10, 10, 10, 10, 10, 2]
          \<longrightarrow> decrypt ref_aead example_env c64' (iv example_envelope) t64'
              = decrypt ref_aead example_env (ciphertext example_envelope)
                  (iv example_envelope) (tag example_envelope)"
    by blast
  with dec' have same: "decrypt ref_aead example_env (ciphertext resplit_envelope)
        (iv example_envelope) (tag resplit_envelope)
       = decrypt ref_aead example_env (ciphertext example_envelope) (iv example_envelope)
           (tag example_envelope)"
    by blast
  show ?thesis
    using bad run ep same load_example_key by simp
qed

section \<open>Loading the key\<close>

text \<open>
  main.py: importing the module calls \<open>load_dotenv()\<close>, which only fills the environment,
  and builds the application; the \<open>lifespan\<close> hook logs a message at startup. Nothing at
  startup reads \<open>VAULT_ENCRYPTION_KEY\<close>: the key is loaded inside every \<open>encrypt\<close> and
  \<open>decrypt\<close> call.
\<close>

definition lifespan_startup :: "environ \<Rightarrow> exn + unit" where
  "lifespan_startup env = Inr ()"

lemma fromhex_error: "fromhex s = Inl e \<Longrightarrow> e = ValueError"
  by (induction s arbitrary: e rule: fromhex.induct)
    (auto split: if_splits option.splits list.splits sum.splits)

lemma load_key_not_InvalidTag: "load_key env = Inl e \<Longrightarrow> e \<noteq> InvalidTag"
  by (auto simp: load_key_def dest: fromhex_error split: option.splits if_splits sum.splits)

definition no_key_env :: environ where
  "no_key_env = Map.empty"

definition bad_hex_env :: environ where
  "bad_hex_env = [''VAULT_ENCRYPTION_KEY'' \<mapsto> ascii ''not-a-hex-key'']"

definition short_key_env :: environ where
  "short_key_env = [''VAULT_ENCRYPTION_KEY'' \<mapsto> ascii ''00ff'']"

text \<open>
  C5, as stated, fails twice. The three cases do not raise one error kind: a missing key
  raises \<open>RuntimeError\<close>, a value that is not hexadecimal raises the \<open>ValueError\<close> of
  \<open>bytes.fromhex\<close>. And a bad key is not fatal at startup: startup succeeds without a key,
  and the \<open>/decrypt\<close> endpoint then answers each request with a 400.
\<close>

theorem key_validation_counterexample:
  "load_key no_key_env
     = Inl (RuntimeError ''VAULT_ENCRYPTION_KEY environment variable not set'')
   \<and> load_key bad_hex_env = Inl ValueError
   \<and> lifespan_startup no_key_env = Inr ()
   \<and> decrypt_endpoint ref_aead no_key_env example_envelope
       = HTTPException 400 (DetailOf ''Decryption error: ''
           (RuntimeError ''VAULT_ENCRYPTION_KEY environment variable not set''))"
  by (simp add: load_key_def no_key_env_def bad_hex_env_def ascii_def hex_digit_def
      py_isspace_def lifespan_startup_def decrypt_endpoint_def decrypt_def)

text \<open>
  C5, amended. \<open>_load_key\<close> raises \<open>RuntimeError\<close> when the configured value is absent or
  empty and when it decodes to a number of bytes other than 32, and the hex decoder's
  \<open>ValueError\<close> when it is not hexadecimal; otherwise it returns the 32 decoded bytes.
  Loading the key is the first step of every \<open>encrypt\<close> and \<open>decrypt\<close> call (it is not done
  at startup): when it raises, the call raises the same error whatever the AEAD primitive
  is, before any cryptographic operation and without reading the random source; the
  \<open>/decrypt\<close> endpoint answers 400 and the \<open>/encrypt\<close> endpoint lets the error escape.
\<close>

theorem key_validation:
  "(env ''VAULT_ENCRYPTION_KEY'' = None \<or> env ''VAULT_ENCRYPTION_KEY'' = Some [] \<longrightarrow>
      load_key env = Inl (RuntimeError ''VAULT_ENCRYPTION_KEY environment variable not set''))
   \<and> (env ''VAULT_ENCRYPTION_KEY'' = Some key_hex \<and> key_hex \<noteq> [] \<longrightarrow>
        (isl (fromhex key_hex) \<longrightarrow> load_key env = Inl ValueError)
        \<and> (\<forall>key_bytes. fromhex key_hex = Inr key_bytes \<longrightarrow>
              load_key env =
                (if length key_bytes \<noteq> 32
                 then Inl (RuntimeError
                   ''VAULT_ENCRYPTION_KEY must be exactly 32 bytes (64 hex chars)'')
                 else Inr key_bytes)))
   \<and> (load_key env = Inl e \<longrightarrow>
        encrypt lib env rnd plaintext = (Inl e, rnd)
        \<and> decrypt lib env c64 n64 t64 = Inl e
        \<and> decrypt_endpoint lib env req
            = HTTPException 400 (DetailOf ''Decryption error: '' e)
        \<and> (plaintext \<noteq> [] \<longrightarrow> encrypt_endpoint lib env rnd plaintext = (Unhandled e, rnd)))"
proof (intro conjI impI allI)
  assume "env ''VAULT_ENCRYPTION_KEY'' = None \<or> env ''VAULT_ENCRYPTION_KEY'' = Some []"
  then show "load_key env
      = Inl (RuntimeError ''VAULT_ENCRYPTION_KEY environment variable not set'')"
    by (auto simp: load_key_def)
next
  assume k: "env ''VAULT_ENCRYPTION_KEY'' = Some key_hex \<and> key_hex \<noteq> []"
    and bad: "isl (fromhex key_hex)"
  from bad obtain e where e: "fromhex key_hex = Inl e" by (cases "fromhex key_hex") auto
  with fromhex_error [OF e] k show "load_key env = Inl ValueError"
    by (simp add: load_key_def)
next
  fix key_bytes
  assume "env ''VAULT_ENCRYPTION_KEY'' = Some key_hex \<and> key_hex \<noteq> []"
    and "fromhex key_hex = Inr key_bytes"
  then show "load_key env =
      (if length key_bytes \<noteq> 32
       then Inl (RuntimeError ''VAULT_ENCRYPTION_KEY must be exactly 32 bytes (64 hex chars)'')
       else Inr key_bytes)"
    by (simp add: load_key_def)
next
  assume e: "load_key env = Inl e"
  show "encrypt lib env rnd plaintext = (Inl e, rnd)" by (simp add: encrypt_def e)
  show d: "decrypt lib env c64 n64 t64 = Inl e" by (simp add: decrypt_def e)
  have "decrypt lib env (ciphertext req) (iv req) (tag req) = Inl e"
    by (simp add: decrypt_def e)
  then show "decrypt_endpoint lib env req
      = HTTPException 400 (DetailOf ''Decryption error: '' e)"
    using load_key_not_InvalidTag [OF e]
    by (cases e) (simp_all add: decrypt_endpoint_def)
  assume "plaintext \<noteq> []"
  then show "encrypt_endpoint lib env rnd plaintext = (Unhandled e, rnd)"
    by (simp add: encrypt_endpoint_def encrypt_def e)
qed

theorem key_validation_witness:
  "load_key no_key_env
     = Inl (RuntimeError ''VAULT_ENCRYPTION_KEY environment variable not set'')
   \<and> encrypt ref_aead no_key_env example_rnd example_plaintext
       = (Inl (RuntimeError ''VAULT_ENCRYPTION_KEY environment variable not set''), example_rnd)
   \<and> fromhex (ascii ''not-a-hex-key'') = Inl ValueError
   \<and> load_key bad_hex_env = Inl ValueError
   \<and> decrypt_endpoint ref_aead bad_hex_env example_envelope
       = HTTPException 400 (DetailOf ''Decryption error: '' ValueError)
   \<and> fromhex (ascii ''00ff'') = Inr [0, 255]
   \<and> load_key short_key_env
       = Inl (RuntimeError ''VAULT_ENCRYPTION_KEY must be exactly 32 bytes (64 hex chars)'')
   \<and> load_key example_env = Inr example_key"
proof -
  have h1: "fromhex (ascii ''not-a-hex-key'') = Inl ValueError"
    by (simp add: ascii_def hex_digit_def py_isspace_def)
  have h2: "fromhex (ascii ''00ff'') = Inr [0, 255]"
    by (simp add: ascii_def hex_digit_def py_isspace_def)
  have a: "load_key no_key_env
      = Inl (RuntimeError ''VAULT_ENCRYPTION_KEY environment variable not set'')"
    using key_validation [where env = no_key_env] by (simp add: no_key_env_def)
  have b: "encrypt ref_aead no_key_env example_rnd example_plaintext
       = (Inl (RuntimeError ''VAULT_ENCRYPTION_KEY environment variable not set''), example_rnd)"
    using key_validation [where env = no_key_env and lib = ref_aead and rnd = example_rnd
        and plaintext = example_plaintext
        and e = "RuntimeError ''VAULT_ENCRYPTION_KEY environment variable not set''"] a
    by simp
  have c: "load_key bad_hex_env = Inl ValueError"
    using key_validation [where env = bad_hex_env and key_hex = "ascii ''not-a-hex-key''"] h1
    by (simp add: bad_hex_env_def ascii_def)
  have d: "decrypt_endpoint ref_aead bad_hex_env example_envelope
       = HTTPException 400 (DetailOf ''Decryption error: '' ValueError)"
    using key_validation [where env = bad_hex_env and lib = ref_aead and e = ValueError
        and req = example_envelope] c
    by simp
  have e: "load_key short_key_env
       = Inl (RuntimeError ''VAULT_ENCRYPTION_KEY must be exactly 32 bytes (64 hex chars)'')"
    using key_validation [where env = short_key_env and key_hex = "ascii ''00ff''"] h2
    by (simp add: short_key_env_def ascii_def)
  show ?thesis
    using a b c d e h1 h2 load_example_key by simp
qed

section \<open>services/breach.py\<close>

text \<open>
  What the service takes from the Python runtime without it being modelled here: the
  SHA-1 digest of \<open>hashlib\<close>, the Unicode database behind \<open>str.upper\<close> and \<open>int\<close> for code
  points outside ASCII (the full upper-case mapping of a code point, its decimal digit
  value if it is a digit, whether it is white space), and the interpreter's limit on the
  number of digits \<open>int\<close> accepts (\<open>sys.get_int_max_str_digits()\<close>, 0 for no limit).
\<close>

record runtime =
  sha1 :: "bytes \<Rightarrow> bytes"
  uc_upper :: "nat \<Rightarrow> str"
  uc_decimal :: "nat \<Rightarrow> nat option"
  uc_space :: "nat \<Rightarrow> bool"
  int_max_str_digits :: nat

subsection \<open>\<open>hexdigest\<close>, \<open>str.upper\<close>, \<open>str.splitlines\<close>, \<open>str.split\<close>, \<open>int\<close>\<close>

definition hex_char :: "nat \<Rightarrow> nat" where
  "hex_char v = (if v < 10 then 48 + v else 87 + v)"

definition hexdigest :: "bytes \<Rightarrow> str" where
  "hexdigest bs = concat (map (\<lambda>b. [hex_char (unat b div 16), hex_char (unat b mod 16)]) bs)"

definition upper :: "runtime \<Rightarrow> str \<Rightarrow> str" where
  "upper rt s =
     concat (map (\<lambda>c. if c < 128 then [if 97 \<le> c \<and> c \<le> 122 then c - 32 else c]
                       else uc_upper rt c) s)"

text \<open>
  \<open>splitlines\<close> breaks at \<open>\n\<close>, \<open>\r\<close>, \<open>\r\n\<close> (one break), \<open>\v\<close>, \<open>\f\<close>, \<open>\x1c\<close>, \<open>\x1d\<close>, \<open>\x1e\<close>,
  \<open>\x85\<close>, \<open>\u2028\<close> and \<open>\u2029\<close>, and does not return an empty last line.
  \<open>after_cr\<close> says that the previous character was \<open>\r\<close>; \<open>cur\<close> is the line read so far.
\<close>

definition line_break :: "nat \<Rightarrow> bool" where
  "line_break c = (c \<in> {10, 11, 12, 28, 29, 30, 133, 8232, 8233})"

fun splitlines_from :: "bool \<Rightarrow> str \<Rightarrow> str \<Rightarrow> str list" where
  "splitlines_from after_cr cur [] = (if cur = [] then [] else [cur])"
| "splitlines_from after_cr cur (c # cs) =
     (if after_cr \<and> c = 10 then splitlines_from False cur cs
      else if c = 13 then cur # splitlines_from True [] cs
      else if line_break c then cur # splitlines_from False [] cs
      else splitlines_from False (cur @ [c]) cs)"

definition splitlines :: "str \<Rightarrow> str list" where
  "splitlines s = splitlines_from False [] s"

text \<open>\<open>s.split(sep)\<close> for a separator of one character: always at least one part.\<close>

fun split_on :: "nat \<Rightarrow> str \<Rightarrow> str list" where
  "split_on sep [] = [[]]"
| "split_on sep (c # cs) =
     (if c = sep then [] # split_on sep cs
      else (case split_on sep cs of [] \<Rightarrow> [[c]] | p # ps \<Rightarrow> (c # p) # ps))"

text \<open>
  \<open>int(s)\<close> for a \<open>str\<close>, base 10: in a string that is not ASCII, white space becomes a
  blank, a decimal digit its ASCII digit and anything else \<open>?\<close>; then optional white
  space, an optional sign, digits with single underscores between them, optional white
  space, and nothing else. Too many digits for the interpreter's limit raise \<open>ValueError\<close>
  like a malformed literal.
\<close>

definition is_digit :: "nat \<Rightarrow> bool" where
  "is_digit c = (48 \<le> c \<and> c \<le> 57)"

definition to_ascii_decimal :: "runtime \<Rightarrow> str \<Rightarrow> str" where
  "to_ascii_decimal rt s =
     (if list_all (\<lambda>c. c < 128) s then s
      else map (\<lambda>c. if c < 127 then c
                     else if uc_space rt c then 32
                     else (case uc_decimal rt c of Some d \<Rightarrow> 48 + d | None \<Rightarrow> 63)) s)"

fun underscores_ok :: "str \<Rightarrow> bool" where
  "underscores_ok [] = True"
| "underscores_ok [c] = (c \<noteq> 95)"
| "underscores_ok (c # d # cs) = (\<not> (c = 95 \<and> d = 95) \<and> underscores_ok (d # cs))"

definition py_int :: "runtime \<Rightarrow> str \<Rightarrow> exn + int" where
  "py_int rt s =
     (let s1 = dropWhile py_isspace (to_ascii_decimal rt s);
          negative = (take 1 s1 = [45]);
          s2 = (if take 1 s1 = [43] \<or> take 1 s1 = [45] then drop 1 s1 else s1);
          body = takeWhile (\<lambda>c. is_digit c \<or> c = 95) s2;
          rest = dropWhile py_isspace (dropWhile (\<lambda>c. is_digit c \<or> c = 95) s2);
          digits = filter is_digit body
      in if take 1 body = [95] \<or> \<not> underscores_ok body \<or> digits = [] \<or> rest \<noteq> [] then
           Inl ValueError
         else if 640 < length digits \<and> 0 < int_max_str_digits rt
                 \<and> int_max_str_digits rt < length digits then
           Inl ValueError
         else
           (let n = foldl (\<lambda>a c. 10 * a + int (c - 48)) 0 digits
            in Inr (if negative then - n else n)))"

subsection \<open>The range lookup\<close>

text \<open>
  A request as the service builds it (the client's timeout of 5 seconds included), and
  what the network makes of it: the client times out, fails to connect, or gets a
  response with a status code and a text. \<open>raise_for_status\<close> raises on every status
  outside 200 to 299.
\<close>

record request =
  url :: str
  headers :: "(str \<times> str) list"
  timeout :: nat

datatype reply = TimedOut | ConnectFailed | Response nat str

type_synonym network = "request \<Rightarrow> reply"

definition HIBP_API_URL :: str where
  "HIBP_API_URL = ascii ''https://api.pwnedpasswords.com/range''"

definition raise_for_status :: "nat \<Rightarrow> exn + unit" where
  "raise_for_status status_code =
     (if 200 \<le> status_code \<and> status_code \<le> 299 then Inr ()
      else Inl (HTTPStatusError status_code))"

text \<open>The request of step 3, from the prefix alone.\<close>

definition range_request :: "str \<Rightarrow> request" where
  "range_request prefix =
     \<lparr>url = HIBP_API_URL @ ascii ''/'' @ prefix,
      headers = [(ascii ''Add-Padding'', ascii ''true''),
                 (ascii ''User-Agent'', ascii ''SecureVault/1.0'')],
      timeout = 5\<rparr>"

text \<open>Step 4, the loop over the lines: unpacking a split that has not two parts raises.\<close>

fun scan_lines :: "runtime \<Rightarrow> str \<Rightarrow> str list \<Rightarrow> exn + bool \<times> int" where
  "scan_lines rt suffix [] = Inr (False, 0)"
| "scan_lines rt suffix (line # lines) =
     (case split_on 58 line of
        [returned_suffix, count] \<Rightarrow>
          if upper rt returned_suffix = suffix then
            (case py_int rt count of Inl e \<Rightarrow> Inl e | Inr n \<Rightarrow> Inr (True, n))
          else scan_lines rt suffix lines
      | _ \<Rightarrow> Inl ValueError)"

text \<open>
  \<open>check_password_breach\<close> returns its result together with the requests it sent, in
  order.
\<close>

definition check_password_breach ::
    "runtime \<Rightarrow> network \<Rightarrow> str \<Rightarrow> (exn + bool \<times> int) \<times> request list" where
  "check_password_breach rt client_get password =
     (case utf8_encode password of
        Inl e \<Rightarrow> (Inl e, [])
      | Inr password_bytes \<Rightarrow>
          (let sha1_hash = upper rt (hexdigest (sha1 rt password_bytes));
               prefix = take 5 sha1_hash;
               suffix = drop 5 sha1_hash
           in ((case client_get (range_request prefix) of
                  TimedOut \<Rightarrow> Inl TimeoutException
                | ConnectFailed \<Rightarrow> Inl ConnectError
                | Response status_code text \<Rightarrow>
                    (case raise_for_status status_code of
                       Inl e \<Rightarrow> Inl e
                     | Inr u \<Rightarrow> scan_lines rt suffix (splitlines text))),
               [range_request prefix])))"

section \<open>routers/breach.py\<close>

text \<open>The \<open>message\<close> of a response is one of two texts, the first with the count in it.\<close>

datatype breach_message = Breached_message int | Clean_message

record BreachResponse =
  breached :: bool
  count :: int
  message :: breach_message

definition breach_check ::
    "runtime \<Rightarrow> network \<Rightarrow> str \<Rightarrow> BreachResponse outcome \<times> request list" where
  "breach_check rt client_get password =
     (case check_password_breach rt client_get password of
        (Inr (is_breached, n), sent) \<Rightarrow>
          (if is_breached then
             Return \<lparr>breached = True, count = n, message = Breached_message n\<rparr>
           else Return \<lparr>breached = False, count = 0, message = Clean_message\<rparr>, sent)
      | (Inl e, sent) \<Rightarrow>
          (HTTPException 503 (DetailOf ''Breach check service unavailable: '' e), sent))"

section \<open>The breach check, step by step\<close>

text \<open>
  \<open>lookup_failed\<close>: the client timed out, could not connect, or got a status that is not a
  success. \<open>passes\<close>: a line of two parts whose suffix is not the one looked for; the scan
  goes past such a line without reading its count.
\<close>

definition lookup_failed :: "reply \<Rightarrow> bool" where
  "lookup_failed r =
     (case r of
        TimedOut \<Rightarrow> True
      | ConnectFailed \<Rightarrow> True
      | Response status_code text \<Rightarrow> \<not> (200 \<le> status_code \<and> status_code \<le> 299))"

definition passes :: "runtime \<Rightarrow> str \<Rightarrow> str \<Rightarrow> bool" where
  "passes rt suffix line =
     (case split_on 58 line of
        [returned_suffix, cnt] \<Rightarrow> upper rt returned_suffix \<noteq> suffix
      | _ \<Rightarrow> False)"

lemma passes_iff:
  "passes rt suffix line
   \<longleftrightarrow> (\<exists>returned_suffix cnt. split_on 58 line = [returned_suffix, cnt]
          \<and> upper rt returned_suffix \<noteq> suffix)"
  by (auto simp: passes_def split: list.splits)

lemma scan_lines_pass: "passes rt suffix line \<Longrightarrow> scan_lines rt suffix (line # rest) = scan_lines rt suffix rest"
  by (auto simp: passes_iff)

lemma scan_lines_passes:
  "list_all (passes rt suffix) pre \<Longrightarrow> scan_lines rt suffix (pre @ rest) = scan_lines rt suffix rest"
proof (induction pre)
  case Nil
  then show ?case by simp
next
  case (Cons line pre)
  then have "passes rt suffix line" and "list_all (passes rt suffix) pre" by simp_all
  then show ?case using Cons.IH by (simp only: append_Cons scan_lines_pass)
qed

lemma scan_lines_malformed:
  "length (split_on 58 line) \<noteq> 2 \<Longrightarrow> scan_lines rt suffix (line # rest) = Inl ValueError"
  by (auto split: list.splits)

lemma scan_lines_match:
  "split_on 58 line = [returned_suffix, cnt] \<Longrightarrow> upper rt returned_suffix = suffix
   \<Longrightarrow> scan_lines rt suffix (line # rest)
       = (case py_int rt cnt of Inl e \<Rightarrow> Inl e | Inr n \<Rightarrow> Inr (True, n))"
  by simp

lemma check_on_response:
  assumes "utf8_encode password = Inr password_bytes"
    and "client_get (range_request (take 5 (upper rt (hexdigest (sha1 rt password_bytes)))))
         = Response status_code text"
    and "200 \<le> status_code \<and> status_code \<le> 299"
  shows "fst (check_password_breach rt client_get password)
         = scan_lines rt (drop 5 (upper rt (hexdigest (sha1 rt password_bytes))))
             (splitlines text)"
  using assms by (simp add: check_password_breach_def Let_def raise_for_status_def)

lemma breach_check_of:
  "fst (breach_check rt client_get password)
   = (case fst (check_password_breach rt client_get password) of
        Inr (is_breached, n) \<Rightarrow>
          if is_breached then
            Return \<lparr>breached = True, count = n, message = Breached_message n\<rparr>
          else Return \<lparr>breached = False, count = 0, message = Clean_message\<rparr>
      | Inl e \<Rightarrow> HTTPException 503 (DetailOf ''Breach check service unavailable: '' e))"
  by (simp add: breach_check_def split: prod.splits sum.splits)

section \<open>Claims about the breach check\<close>

text \<open>
  C4 (unavailability is never masked). When the range lookup times out, cannot connect
  or returns a status that is not a success, \<open>check_password_breach\<close> raises (the client's
  timeout or connection error, or the status error of \<open>raise_for_status\<close>); the endpoint
  answers 503 "Breach check service unavailable". In no failure case is the result
  \<open>(False, 0)\<close>, and no response with \<open>breached = False\<close> is returned.
\<close>

theorem unavailability_not_masked:
  assumes down: "\<And>req. lookup_failed (client_get req)"
  shows "fst (check_password_breach rt client_get password) =
           (case utf8_encode password of
              Inl e \<Rightarrow> Inl e
            | Inr password_bytes \<Rightarrow>
                (case client_get
                        (range_request (take 5 (upper rt (hexdigest (sha1 rt password_bytes)))))
                 of TimedOut \<Rightarrow> Inl TimeoutException
                  | ConnectFailed \<Rightarrow> Inl ConnectError
                  | Response status_code text \<Rightarrow> Inl (HTTPStatusError status_code)))
         \<and> (\<exists>e. fst (check_password_breach rt client_get password) = Inl e
                \<and> fst (breach_check rt client_get password)
                    = HTTPException 503 (DetailOf ''Breach check service unavailable: '' e))
         \<and> fst (check_password_breach rt client_get password) \<noteq> Inr (False, 0)"
proof -
  have 1: "fst (check_password_breach rt client_get password) =
           (case utf8_encode password of
              Inl e \<Rightarrow> Inl e
            | Inr password_bytes \<Rightarrow>
                (case client_get
                        (range_request (take 5 (upper rt (hexdigest (sha1 rt password_bytes)))))
                 of TimedOut \<Rightarrow> Inl TimeoutException
                  | ConnectFailed \<Rightarrow> Inl ConnectError
                  | Response status_code text \<Rightarrow> Inl (HTTPStatusError status_code)))"
  proof (cases "utf8_encode password")
    case (Inl e)
    then show ?thesis by (simp add: check_password_breach_def)
  next
    case (Inr pb)
    show ?thesis
      using down [of "range_request (take 5 (upper rt (hexdigest (sha1 rt pb))))"]
      by (cases "client_get (range_request (take 5 (upper rt (hexdigest (sha1 rt pb)))))")
        (auto simp: Inr check_password_breach_def Let_def lookup_failed_def
          raise_for_status_def)
  qed
  then obtain e where e: "fst (check_password_breach rt client_get password) = Inl e"
    by (auto split: sum.splits reply.splits)
  then show ?thesis
    using 1 by (simp add: breach_check_of)
qed


subsection \<open>A concrete runtime and response\<close>

text \<open>
  A runtime for running the check on concrete inputs: its digest is not SHA-1 but twenty
  bytes computed from the sum and the number of the bytes, so that a password with a given
  digest can be written down (\<open>UU\<close> has the digest \<open>AA...A\<close>, and \<open>2<<\<close> has the same first five
  characters and another suffix); its Unicode database knows ASCII only. \<open>example_body\<close> is the
  response body of the specification's example.
\<close>

definition sum_bytes :: "bytes \<Rightarrow> byte" where
  "sum_bytes bs = foldr (+) bs 0"

definition example_runtime :: runtime where
  "example_runtime =
     \<lparr>sha1 = (\<lambda>bs. replicate 3 (sum_bytes bs)
                     @ replicate 17 (sum_bytes bs + of_nat (length bs) - 2)),
      uc_upper = (\<lambda>c. [c]),
      uc_decimal = (\<lambda>c. None),
      uc_space = (\<lambda>c. False),
      int_max_str_digits = 4300\<rparr>"

definition suffix_A :: str where
  "suffix_A = ascii ''AAAAAAAAAAAAAAAAAAAAAAAAAAAAAAAAAAA''"

definition suffix_B :: str where
  "suffix_B = ascii ''BBBBBBBBBBBBBBBBBBBBBBBBBBBBBBBBBBB''"

definition example_body :: str where
  "example_body = suffix_A @ ascii '':3'' @ [10] @ suffix_B @ ascii '':10''"

definition serves :: "str \<Rightarrow> network" where
  "serves body = (\<lambda>req. Response 200 body)"

lemma example_body_lines:
  "splitlines example_body = [suffix_A @ ascii '':3'', suffix_B @ ascii '':10'']"
  by (simp add: example_body_def splitlines_def suffix_A_def suffix_B_def ascii_def
      line_break_def)

lemma example_line_parts:
  "split_on 58 (suffix_A @ ascii '':3'') = [suffix_A, ascii ''3'']"
  "split_on 58 (suffix_B @ ascii '':10'') = [suffix_B, ascii ''10'']"
  by (simp_all add: suffix_A_def suffix_B_def ascii_def)

lemma upper_example_suffixes:
  "upper rt suffix_A = suffix_A" "upper rt suffix_B = suffix_B"
  by (simp_all add: upper_def suffix_A_def suffix_B_def ascii_def)

lemma py_int_examples: "py_int rt (ascii ''3'') = Inr 3" "py_int rt (ascii ''10'') = Inr 10"
  by (simp_all add: py_int_def to_ascii_decimal_def ascii_def py_isspace_def is_digit_def
      Let_def)

lemma example_password_bytes: "utf8_encode (ascii ''UU'') = Inr [85, 85]"
  by (simp add: ascii_def utf8_char_def)

lemma example_digest:
  "upper example_runtime (hexdigest (sha1 example_runtime [85, 85]))
   = ascii ''AAAAA'' @ suffix_A"
proof -
  have "sha1 example_runtime [85, 85] = replicate 3 170 @ replicate 17 170"
    by (simp add: example_runtime_def sum_bytes_def)
  also have "\<dots> = [170, 170, 170, 170, 170, 170, 170, 170, 170, 170,
                   170, 170, 170, 170, 170, 170, 170, 170, 170, 170]"
    by (simp add: numeral_eq_Suc)
  finally show ?thesis
    by (simp add: hexdigest_def hex_char_def upper_def suffix_A_def ascii_def)
qed


lemma example_take_drop:
  "take 5 (ascii ''AAAAA'' @ suffix_A) = ascii ''AAAAA''"
  "drop 5 (ascii ''AAAAA'' @ suffix_A) = suffix_A"
  by (simp_all add: ascii_def)

theorem unavailability_not_masked_witness:
  "lookup_failed TimedOut
   \<and> fst (check_password_breach example_runtime (\<lambda>req. TimedOut) (ascii ''UU''))
       = Inl TimeoutException
   \<and> fst (breach_check example_runtime (\<lambda>req. TimedOut) (ascii ''UU''))
       = HTTPException 503 (DetailOf ''Breach check service unavailable: '' TimeoutException)
   \<and> lookup_failed (Response 503 [])
   \<and> fst (check_password_breach example_runtime (\<lambda>req. Response 503 []) (ascii ''UU''))
       = Inl (HTTPStatusError 503)
   \<and> fst (breach_check example_runtime (\<lambda>req. Response 503 []) (ascii ''UU''))
       = HTTPException 503
           (DetailOf ''Breach check service unavailable: '' (HTTPStatusError 503))"
proof -
  have a: "lookup_failed ((\<lambda>req. TimedOut) req)" for req :: request
    by (simp add: lookup_failed_def)
  have b: "lookup_failed ((\<lambda>req. Response 503 []) req)" for req :: request
    by (simp add: lookup_failed_def)
  from unavailability_not_masked [of "\<lambda>req. TimedOut" example_runtime "ascii ''UU''", OF a]
    unavailability_not_masked [of "\<lambda>req. Response 503 []" example_runtime "ascii ''UU''", OF b]
  show ?thesis
    using a b by (auto simp: example_password_bytes)
qed

text \<open>
  C7 (breach matching). The lookup answered with a success status and a body. If the
  lines before some line all have two parts and another suffix, and that line's suffix
  equals the locally computed suffix once put in upper case (the local one is upper case
  already), the result is \<open>(True, n)\<close> with \<open>n\<close> the count parsed from that line, and the
  endpoint returns \<open>breached = True\<close> with that count: the first match decides. If every
  line has two parts and another suffix, the result is \<open>(False, 0)\<close>. In particular, for
  the body \<open>AAAAAAAAAAAAAAAAAAAAAAAAAAAAAAAAAAA:3\<close>, newline,
  \<open>BBBBBBBBBBBBBBBBBBBBBBBBBBBBBBBBBBB:10\<close>, a password whose digest suffix is the first
  record's gets \<open>(True, 3)\<close>, and one whose suffix is neither record's gets \<open>(False, 0)\<close>.
\<close>

theorem breach_matching:
  assumes enc: "utf8_encode password = Inr password_bytes"
    and h: "sha1_hash = upper rt (hexdigest (sha1 rt password_bytes))"
    and resp: "client_get (range_request (take 5 sha1_hash)) = Response status_code text"
    and ok: "200 \<le> status_code \<and> status_code \<le> 299"
  shows "(splitlines text = pre @ line # post
            \<and> list_all (passes rt (drop 5 sha1_hash)) pre
            \<and> split_on 58 line = [returned_suffix, cnt]
            \<and> upper rt returned_suffix = drop 5 sha1_hash
            \<and> py_int rt cnt = Inr n
          \<longrightarrow> fst (check_password_breach rt client_get password) = Inr (True, n)
              \<and> fst (breach_check rt client_get password)
                  = Return \<lparr>breached = True, count = n, message = Breached_message n\<rparr>)
         \<and> (list_all (passes rt (drop 5 sha1_hash)) (splitlines text)
          \<longrightarrow> fst (check_password_breach rt client_get password) = Inr (False, 0)
              \<and> fst (breach_check rt client_get password)
                  = Return \<lparr>breached = False, count = 0, message = Clean_message\<rparr>)
         \<and> (text = example_body \<and> drop 5 sha1_hash = suffix_A
          \<longrightarrow> fst (check_password_breach rt client_get password) = Inr (True, 3))
         \<and> (text = example_body \<and> drop 5 sha1_hash \<noteq> suffix_A \<and> drop 5 sha1_hash \<noteq> suffix_B
          \<longrightarrow> fst (check_password_breach rt client_get password) = Inr (False, 0))"
proof -
  have run: "fst (check_password_breach rt client_get password)
      = scan_lines rt (drop 5 sha1_hash) (splitlines text)"
    using check_on_response [where password = password and password_bytes = password_bytes
        and client_get = client_get and rt = rt and status_code = status_code and ?text = "text"]
      enc resp ok
    by (simp add: h)
  have found: "fst (check_password_breach rt client_get password) = Inr (True, n)"
    if "splitlines text = pre @ line # post"
      "list_all (passes rt (drop 5 sha1_hash)) pre"
      "split_on 58 line = [returned_suffix, cnt]"
      "upper rt returned_suffix = drop 5 sha1_hash"
      "py_int rt cnt = Inr n"
    for pre line post returned_suffix cnt n
    using that by (simp add: run scan_lines_passes scan_lines_match del: scan_lines.simps)
  have clean: "fst (check_password_breach rt client_get password) = Inr (False, 0)"
    if "list_all (passes rt (drop 5 sha1_hash)) (splitlines text)"
    using scan_lines_passes [OF that, of "[]"] by (simp add: run)
  have ex1: "fst (check_password_breach rt client_get password) = Inr (True, 3)"
    if "text = example_body" "drop 5 sha1_hash = suffix_A"
    using found [of "[]" "suffix_A @ ascii '':3''" "[suffix_B @ ascii '':10'']" suffix_A
        "ascii ''3''" 3] that
    by (simp add: example_body_lines example_line_parts upper_example_suffixes py_int_examples)
  have ex2: "fst (check_password_breach rt client_get password) = Inr (False, 0)"
    if "text = example_body" "drop 5 sha1_hash \<noteq> suffix_A" "drop 5 sha1_hash \<noteq> suffix_B"
  proof -
    have "list_all (passes rt (drop 5 sha1_hash)) (splitlines text)"
      using that
      by (auto simp: example_body_lines passes_def example_line_parts upper_example_suffixes)
    then show ?thesis by (rule clean)
  qed
  show ?thesis
    using found clean ex1 ex2 by (simp add: breach_check_of)
qed

theorem breach_matching_witness:
  "utf8_encode (ascii ''UU'') = Inr [85, 85]
   \<and> upper example_runtime (hexdigest (sha1 example_runtime [85, 85])) = ascii ''AAAAA'' @ suffix_A
   \<and> serves example_body (range_request (ascii ''AAAAA'')) = Response 200 example_body
   \<and> fst (check_password_breach example_runtime (serves example_body) (ascii ''UU''))
       = Inr (True, 3)
   \<and> fst (breach_check example_runtime (serves example_body) (ascii ''UU''))
       = Return \<lparr>breached = True, count = 3, message = Breached_message 3\<rparr>"
proof -
  have resp: "serves example_body (range_request (take 5 (ascii ''AAAAA'' @ suffix_A)))
      = Response 200 example_body"
    by (simp add: serves_def)
  have ok: "200 \<le> (200 :: nat) \<and> (200 :: nat) \<le> 299" by simp
  note t = breach_matching [where client_get = "serves example_body"
        and rt = example_runtime and password = "ascii ''UU''" and password_bytes = "[85, 85]"
        and sha1_hash = "ascii ''AAAAA'' @ suffix_A" and status_code = 200
        and ?text = example_body
        and pre = "[]" and line = "suffix_A @ ascii '':3''"
        and post = "[suffix_B @ ascii '':10'']" and returned_suffix = suffix_A
        and cnt = "ascii ''3''" and n = 3,
      OF example_password_bytes example_digest [symmetric] resp ok]
  have "fst (check_password_breach example_runtime (serves example_body) (ascii ''UU''))
       = Inr (True, 3)
     \<and> fst (breach_check example_runtime (serves example_body) (ascii ''UU''))
       = Return \<lparr>breached = True, count = 3, message = Breached_message 3\<rparr>"
    using t [unfolded example_take_drop]
    by (simp add: example_body_lines example_line_parts upper_example_suffixes py_int_examples)
  then show ?thesis
    by (simp add: example_password_bytes example_digest serves_def)
qed

definition corrupted_body :: str where
  "corrupted_body = ascii ''corrupted line'' @ [10] @ suffix_A @ ascii '':3''"

definition bad_count_body :: str where
  "bad_count_body = suffix_A @ ascii '':many''"

definition unread_count_body :: str where
  "unread_count_body = suffix_B @ ascii '':many'' @ [10] @ suffix_A @ ascii '':3''"

lemma check_example_password:
  "fst (check_password_breach example_runtime (serves body) (ascii ''UU''))
   = scan_lines example_runtime suffix_A (splitlines body)"
proof -
  have resp: "serves body
      (range_request (take 5 (upper example_runtime (hexdigest (sha1 example_runtime [85, 85])))))
      = Response 200 body"
    by (simp add: serves_def)
  have ok: "200 \<le> (200 :: nat) \<and> (200 :: nat) \<le> 299" by simp
  have "fst (check_password_breach example_runtime (serves body) (ascii ''UU''))
      = scan_lines example_runtime
          (drop 5 (upper example_runtime (hexdigest (sha1 example_runtime [85, 85]))))
          (splitlines body)"
    by (rule check_on_response [where client_get = "serves body" and status_code = 200,
          OF example_password_bytes resp ok])
  then show ?thesis
    unfolding example_digest example_take_drop .
qed

lemma py_int_many: "py_int rt (ascii ''many'') = Inl ValueError"
  by (simp add: py_int_def to_ascii_decimal_def ascii_def py_isspace_def is_digit_def Let_def)

lemma example_bad_lines:
  "splitlines corrupted_body = [] @ ascii ''corrupted line'' # [suffix_A @ ascii '':3'']"
  "splitlines bad_count_body = [] @ (suffix_A @ ascii '':many'') # []"
  "splitlines unread_count_body
     = [] @ (suffix_B @ ascii '':many'') # [suffix_A @ ascii '':3'']"
  "splitlines (suffix_A @ ascii '':3'') = [suffix_A @ ascii '':3'']"
  by (simp_all add: corrupted_body_def bad_count_body_def unread_count_body_def
      splitlines_def suffix_A_def suffix_B_def ascii_def line_break_def)

lemma example_bad_parts:
  "split_on 58 (ascii ''corrupted line'') = [ascii ''corrupted line'']"
  "split_on 58 (suffix_A @ ascii '':many'') = [suffix_A, ascii ''many'']"
  "split_on 58 (suffix_B @ ascii '':many'') = [suffix_B, ascii ''many'']"
  by (simp_all add: suffix_A_def suffix_B_def ascii_def)

text \<open>
  C6, as stated, fails. The response body is a line without a separator followed by the
  record of the password's own suffix: the malformed line is not skipped, the whole check
  raises \<open>ValueError\<close> (the endpoint answers 503), and the record after it is never
  examined, although the same record alone is found. A count that is not an integer, on
  the line that matches, raises as well.
\<close>

theorem malformed_line_counterexample:
  "splitlines corrupted_body = [ascii ''corrupted line'', suffix_A @ ascii '':3'']
   \<and> fst (check_password_breach example_runtime (serves corrupted_body) (ascii ''UU''))
       = Inl ValueError
   \<and> fst (breach_check example_runtime (serves corrupted_body) (ascii ''UU''))
       = HTTPException 503 (DetailOf ''Breach check service unavailable: '' ValueError)
   \<and> fst (check_password_breach example_runtime (serves (suffix_A @ ascii '':3''))
        (ascii ''UU'')) = Inr (True, 3)
   \<and> fst (check_password_breach example_runtime (serves bad_count_body) (ascii ''UU''))
       = Inl ValueError"
proof -
  have a: "fst (check_password_breach example_runtime (serves corrupted_body) (ascii ''UU''))
       = Inl ValueError"
    by (simp add: check_example_password example_bad_lines example_bad_parts)
  have b: "fst (check_password_breach example_runtime (serves (suffix_A @ ascii '':3''))
        (ascii ''UU'')) = Inr (True, 3)"
    by (simp add: check_example_password example_bad_lines example_line_parts
        upper_example_suffixes py_int_examples)
  have c: "fst (check_password_breach example_runtime (serves bad_count_body) (ascii ''UU''))
       = Inl ValueError"
    by (simp add: check_example_password example_bad_lines example_bad_parts
        upper_example_suffixes py_int_many)
  show ?thesis
    using a b c example_bad_lines(1) by (simp add: breach_check_of)
qed

text \<open>
  C6, amended. The lookup answered with a success status, and the lines before some line
  all have two parts and another suffix. If that line does not split at \<open>:\<close> into exactly
  two parts, the check raises \<open>ValueError\<close> and the endpoint answers 503: a malformed line
  that the scan reaches is fatal, whatever follows it. The count is parsed only on the
  line whose suffix matches: there, a count that \<open>int\<close> rejects makes the check raise;
  on a line with another suffix the count is not read, whatever it is, and the scan goes
  on with the lines after it.
\<close>

theorem malformed_lines:
  assumes enc: "utf8_encode password = Inr password_bytes"
    and h: "sha1_hash = upper rt (hexdigest (sha1 rt password_bytes))"
    and resp: "client_get (range_request (take 5 sha1_hash)) = Response status_code body"
    and ok: "200 \<le> status_code \<and> status_code \<le> 299"
    and lines: "splitlines body = pre @ line # post"
    and pre: "list_all (passes rt (drop 5 sha1_hash)) pre"
  shows "(length (split_on 58 line) \<noteq> 2
          \<longrightarrow> fst (check_password_breach rt client_get password) = Inl ValueError
              \<and> fst (breach_check rt client_get password)
                  = HTTPException 503
                      (DetailOf ''Breach check service unavailable: '' ValueError))
         \<and> (split_on 58 line = [returned_suffix, cnt]
            \<and> upper rt returned_suffix = drop 5 sha1_hash \<and> py_int rt cnt = Inl e
          \<longrightarrow> fst (check_password_breach rt client_get password) = Inl e
              \<and> fst (breach_check rt client_get password)
                  = HTTPException 503 (DetailOf ''Breach check service unavailable: '' e))
         \<and> (split_on 58 line = [returned_suffix, cnt]
            \<and> upper rt returned_suffix \<noteq> drop 5 sha1_hash
          \<longrightarrow> fst (check_password_breach rt client_get password)
                = scan_lines rt (drop 5 sha1_hash) post)"
proof -
  have run: "fst (check_password_breach rt client_get password)
      = scan_lines rt (drop 5 sha1_hash) (line # post)"
    using check_on_response [where password = password and password_bytes = password_bytes
        and client_get = client_get and rt = rt and status_code = status_code and ?text = body]
      enc resp ok scan_lines_passes [OF pre, of "line # post"]
    by (simp add: h lines)
  have 1: "fst (check_password_breach rt client_get password) = Inl ValueError"
    if "length (split_on 58 line) \<noteq> 2"
    unfolding run using that by (rule scan_lines_malformed)
  have 2: "fst (check_password_breach rt client_get password) = Inl e"
    if "split_on 58 line = [returned_suffix, cnt]"
      "upper rt returned_suffix = drop 5 sha1_hash" "py_int rt cnt = Inl e"
    unfolding run using that by simp
  have 3: "fst (check_password_breach rt client_get password)
      = scan_lines rt (drop 5 sha1_hash) post"
    if "split_on 58 line = [returned_suffix, cnt]"
      "upper rt returned_suffix \<noteq> drop 5 sha1_hash"
    unfolding run using that by simp
  show ?thesis
    using 1 2 3 by (simp add: breach_check_of)
qed

theorem malformed_lines_witness:
  "utf8_encode (ascii ''UU'') = Inr [85, 85]
   \<and> splitlines corrupted_body = [] @ ascii ''corrupted line'' # [suffix_A @ ascii '':3'']
   \<and> length (split_on 58 (ascii ''corrupted line'')) = 1
   \<and> fst (check_password_breach example_runtime (serves corrupted_body) (ascii ''UU''))
       = Inl ValueError
   \<and> fst (breach_check example_runtime (serves corrupted_body) (ascii ''UU''))
       = HTTPException 503 (DetailOf ''Breach check service unavailable: '' ValueError)
   \<and> py_int example_runtime (ascii ''many'') = Inl ValueError
   \<and> fst (check_password_breach example_runtime (serves bad_count_body) (ascii ''UU''))
       = Inl ValueError
   \<and> splitlines unread_count_body = [] @ (suffix_B @ ascii '':many'') # [suffix_A @ ascii '':3'']
   \<and> fst (check_password_breach example_runtime (serves unread_count_body) (ascii ''UU''))
       = Inr (True, 3)"
proof -
  have ne: "suffix_B \<noteq> suffix_A" by (simp add: suffix_A_def suffix_B_def ascii_def)
  have ok: "200 \<le> (200 :: nat) \<and> (200 :: nat) \<le> 299" by simp
  have resp: "serves body (range_request (take 5 (ascii ''AAAAA'' @ suffix_A)))
      = Response 200 body" for body
    by (simp add: serves_def)
  have none: "list_all (passes example_runtime (drop 5 (ascii ''AAAAA'' @ suffix_A))) []"
    by simp
  note t1 = malformed_lines [where rt = example_runtime and password = "ascii ''UU''"
      and password_bytes = "[85, 85]" and sha1_hash = "ascii ''AAAAA'' @ suffix_A"
      and status_code = 200 and pre = "[]" and client_get = "serves corrupted_body"
      and body = corrupted_body,
      OF example_password_bytes example_digest [symmetric] resp ok example_bad_lines(1) none,
      unfolded example_take_drop]
  note t2 = malformed_lines [where rt = example_runtime and password = "ascii ''UU''"
      and password_bytes = "[85, 85]" and sha1_hash = "ascii ''AAAAA'' @ suffix_A"
      and status_code = 200 and pre = "[]" and client_get = "serves bad_count_body"
      and body = bad_count_body,
      OF example_password_bytes example_digest [symmetric] resp ok example_bad_lines(2) none,
      unfolded example_take_drop]
  note t3 = malformed_lines [where rt = example_runtime and password = "ascii ''UU''"
      and password_bytes = "[85, 85]" and sha1_hash = "ascii ''AAAAA'' @ suffix_A"
      and status_code = 200 and pre = "[]" and client_get = "serves unread_count_body"
      and body = unread_count_body,
      OF example_password_bytes example_digest [symmetric] resp ok example_bad_lines(3) none,
      unfolded example_take_drop]
  have a: "fst (check_password_breach example_runtime (serves corrupted_body) (ascii ''UU''))
       = Inl ValueError
     \<and> fst (breach_check example_runtime (serves corrupted_body) (ascii ''UU''))
       = HTTPException 503 (DetailOf ''Breach check service unavailable: '' ValueError)"
    using t1 by (simp add: example_bad_parts)
  have b: "fst (check_password_breach example_runtime (serves bad_count_body) (ascii ''UU''))
       = Inl ValueError"
    using t2 [where returned_suffix = suffix_A and cnt = "ascii ''many''" and e = ValueError]
    by (simp add: example_bad_parts upper_example_suffixes py_int_many)
  have "fst (check_password_breach example_runtime (serves unread_count_body) (ascii ''UU''))
       = scan_lines example_runtime suffix_A [suffix_A @ ascii '':3'']"
    using t3 [where returned_suffix = suffix_B and cnt = "ascii ''many''"]
    by (simp add: example_bad_parts upper_example_suffixes ne)
  then have c: "fst (check_password_breach example_runtime (serves unread_count_body)
      (ascii ''UU'')) = Inr (True, 3)"
    by (simp add: example_line_parts upper_example_suffixes py_int_examples)
  show ?thesis
    using a b c example_bad_lines(1) example_bad_lines(3)
    by (simp add: example_password_bytes example_bad_parts py_int_many)
qed

section \<open>What leaves the service in a breach check\<close>

text \<open>
  \<open>request_strings\<close> are the texts a request carries: its URL and the names and values of
  its headers. \<open>occurs_in sub s\<close>: \<open>sub\<close> is a contiguous part of \<open>s\<close>.
\<close>

definition request_strings :: "request \<Rightarrow> str list" where
  "request_strings req = url req # concat (map (\<lambda>(k, v). [k, v]) (headers req))"

definition occurs_in :: "str \<Rightarrow> str \<Rightarrow> bool" where
  "occurs_in sub s = list_ex (\<lambda>i. take (length sub) (drop i s) = sub) [0..<Suc (length s)]"

definition upper_hex :: "nat \<Rightarrow> bool" where
  "upper_hex c = ((48 \<le> c \<and> c \<le> 57) \<or> (65 \<le> c \<and> c \<le> 70))"

lemma occurs_in_window:
  assumes "occurs_in sub s"
  shows "\<exists>i. i + length sub \<le> length s \<and> (\<forall>j < length sub. sub ! j = s ! (i + j))"
proof (cases "sub = []")
  case True
  then show ?thesis by (intro exI [of _ 0]) simp
next
  case False
  from assms obtain i where i: "take (length sub) (drop i s) = sub"
    by (auto simp: occurs_in_def list_ex_iff)
  have "length (take (length sub) (drop i s)) = length sub" by (simp only: i)
  then have "length sub = min (length sub) (length s - i)" by simp
  then have "length sub \<le> length s - i" by linarith
  moreover have "0 < length sub" using False by simp
  ultimately have le: "i + length sub \<le> length s" by linarith
  have "sub ! j = s ! (i + j)" if "j < length sub" for j
  proof -
    have "sub ! j = take (length sub) (drop i s) ! j" by (simp only: i)
    also have "\<dots> = drop i s ! j" using that by simp
    also have "\<dots> = s ! (i + j)" using that le by simp
    finally show ?thesis .
  qed
  with le show ?thesis by blast
qed

lemma occurs_in_length:
  assumes "occurs_in sub s"
  shows "length sub \<le> length s"
  using occurs_in_window [OF assms] by auto

lemma occurs_in_covers:
  assumes occ: "occurs_in sub s" and lo: "length s - length sub \<le> k" and hi: "k < length sub"
  shows "s ! k \<in> set sub"
proof -
  from occurs_in_window [OF occ] obtain i where i: "i + length sub \<le> length s"
    and nth: "\<forall>j < length sub. sub ! j = s ! (i + j)"
    by blast
  have ik: "i \<le> k" using i lo by linarith
  then have kl: "k - i < length sub" using hi by linarith
  with nth have "sub ! (k - i) = s ! (i + (k - i))" by blast
  then have "sub ! (k - i) = s ! k" using ik by simp
  then show ?thesis using kl by (metis nth_mem)
qed

lemma hex_char_range:
  "v < 16 \<Longrightarrow> (48 \<le> hex_char v \<and> hex_char v \<le> 57) \<or> (97 \<le> hex_char v \<and> hex_char v \<le> 102)"
  by (auto simp: hex_char_def)

lemma hexdigest_chars:
  assumes "c \<in> set (hexdigest bs)"
  shows "(48 \<le> c \<and> c \<le> 57) \<or> (97 \<le> c \<and> c \<le> 102)"
proof -
  from assms
  have "\<exists>b :: byte. c = hex_char (unat b div 16) \<or> c = hex_char (unat b mod 16)"
    by (fastforce simp: hexdigest_def)
  then obtain b :: byte
    where "c = hex_char (unat b div 16) \<or> c = hex_char (unat b mod 16)"
    by blast
  moreover have "unat b div 16 < 16" using unat_byte_lt [of b] by simp
  moreover have "unat b mod 16 < 16" by simp
  ultimately show ?thesis
    using hex_char_range [of "unat b div 16"] hex_char_range [of "unat b mod 16"] by metis
qed

lemma length_hexdigest: "length (hexdigest bs) = 2 * length bs"
  by (induction bs) (simp_all add: hexdigest_def)

lemma upper_ascii:
  "\<forall>c \<in> set s. c < 128
   \<Longrightarrow> upper rt s = map (\<lambda>c. if 97 \<le> c \<and> c \<le> 122 then c - 32 else c) s"
  by (induction s) (simp_all add: upper_def)

lemma upper_hexdigest:
  "length (upper rt (hexdigest bs)) = 2 * length bs"
  "c \<in> set (upper rt (hexdigest bs)) \<Longrightarrow> upper_hex c"
proof -
  have a: "\<forall>c \<in> set (hexdigest bs). c < 128"
    using hexdigest_chars [of _ bs] by fastforce
  show "length (upper rt (hexdigest bs)) = 2 * length bs"
    by (simp add: upper_ascii [OF a] length_hexdigest)
  show "upper_hex c" if "c \<in> set (upper rt (hexdigest bs))"
  proof -
    from that obtain x where x: "x \<in> set (hexdigest bs)"
      and c: "c = (if 97 \<le> x \<and> x \<le> 122 then x - 32 else x)"
      by (auto simp: upper_ascii [OF a])
    from hexdigest_chars [OF x] show ?thesis
      by (auto simp: c upper_hex_def)
  qed
qed

lemma range_request_url:
  "url (range_request prefix) = ascii ''https://api.pwnedpasswords.com/range/'' @ prefix"
  by (simp add: range_request_def HIBP_API_URL_def ascii_def)

lemma range_request_strings:
  "request_strings (range_request prefix)
   = [ascii ''https://api.pwnedpasswords.com/range/'' @ prefix,
      ascii ''Add-Padding'', ascii ''true'', ascii ''User-Agent'', ascii ''SecureVault/1.0'']"
  by (simp add: request_strings_def range_request_def HIBP_API_URL_def ascii_def)

lemma long_hex_not_in_request:
  assumes len: "35 \<le> length sub" and hex: "\<And>c. c \<in> set sub \<Longrightarrow> upper_hex c"
    and p: "length prefix = 5"
    and s: "s \<in> set (request_strings (range_request prefix))"
  shows "\<not> occurs_in sub s"
proof
  assume occ: "occurs_in sub s"
  consider (u) "s = ascii ''https://api.pwnedpasswords.com/range/'' @ prefix"
    | (h) "length s \<le> 15"
    using s by (auto simp: range_request_strings ascii_def)
  then show False
  proof cases
    case u
    have ls: "length s = 42" by (simp add: u p ascii_def)
    have "s ! 8 = 97" by (simp add: u ascii_def nth_append)
    moreover have "s ! 8 \<in> set sub"
      using occurs_in_covers [OF occ, of 8] len occurs_in_length [OF occ] by (simp add: ls)
    ultimately have "upper_hex 97" using hex by metis
    then show False by (simp add: upper_hex_def)
  next
    case h
    with occurs_in_length [OF occ] len show False by simp
  qed
qed


text \<open>
  C3 (anonymity). A breach check sends exactly one request, and that request is made of
  the first five characters of the upper-case hex digest and of constants: the URL is the
  base URL, a slash and the prefix; the headers are fixed. No text of the request contains
  the 40-character digest or its 35-character suffix. The request does not depend on the
  password beyond the prefix: any two passwords whose digests begin with the same five
  characters cause identical requests, whatever the network answers; this is the sense
  in which the password itself is not in the request. (A password that UTF-8 cannot
  encode causes no request at all.) The digest is \<open>hashlib\<close>'s and is assumed to have 20
  bytes.
\<close>

theorem k_anonymity:
  "snd (check_password_breach rt client_get password)
     = (case utf8_encode password of
          Inl e \<Rightarrow> []
        | Inr bs \<Rightarrow> [range_request (take 5 (upper rt (hexdigest (sha1 rt bs))))])
   \<and> (utf8_encode password = Inr password_bytes
      \<and> length (sha1 rt password_bytes) = 20
      \<and> sha1_hash = upper rt (hexdigest (sha1 rt password_bytes))
      \<longrightarrow> length sha1_hash = 40
          \<and> url (range_request (take 5 sha1_hash))
              = ascii ''https://api.pwnedpasswords.com/range/'' @ take 5 sha1_hash
          \<and> (\<forall>s \<in> set (request_strings (range_request (take 5 sha1_hash))).
                \<not> occurs_in sha1_hash s \<and> \<not> occurs_in (drop 5 sha1_hash) s)
          \<and> (\<forall>client_get2 password2 bytes2.
                utf8_encode password2 = Inr bytes2
                \<and> take 5 (upper rt (hexdigest (sha1 rt bytes2))) = take 5 sha1_hash
                \<longrightarrow> snd (check_password_breach rt client_get2 password2)
                    = snd (check_password_breach rt client_get password)))"
proof (intro conjI impI)
  show sent: "snd (check_password_breach rt client_get password)
     = (case utf8_encode password of
          Inl e \<Rightarrow> []
        | Inr bs \<Rightarrow> [range_request (take 5 (upper rt (hexdigest (sha1 rt bs))))])"
    for client_get password
    by (simp add: check_password_breach_def Let_def split: sum.splits)
  assume a: "utf8_encode password = Inr password_bytes
      \<and> length (sha1 rt password_bytes) = 20
      \<and> sha1_hash = upper rt (hexdigest (sha1 rt password_bytes))"
  then have enc: "utf8_encode password = Inr password_bytes"
    and h: "sha1_hash = upper rt (hexdigest (sha1 rt password_bytes))"
    and len: "length sha1_hash = 40"
    by (simp_all add: upper_hexdigest(1))
  have hex: "upper_hex c" if "c \<in> set sha1_hash" for c
    using that upper_hexdigest(2) by (simp add: h)
  show "length sha1_hash = 40" by (rule len)
  show "url (range_request (take 5 sha1_hash))
      = ascii ''https://api.pwnedpasswords.com/range/'' @ take 5 sha1_hash"
    by (rule range_request_url)
  show "\<forall>s \<in> set (request_strings (range_request (take 5 sha1_hash))).
          \<not> occurs_in sha1_hash s \<and> \<not> occurs_in (drop 5 sha1_hash) s"
  proof (intro ballI conjI)
    fix s
    assume s: "s \<in> set (request_strings (range_request (take 5 sha1_hash)))"
    have p: "length (take 5 sha1_hash) = 5" by (simp add: len)
    show "\<not> occurs_in sha1_hash s"
      using long_hex_not_in_request [OF _ hex p s] by (simp add: len)
    have "upper_hex c" if "c \<in> set (drop 5 sha1_hash)" for c
      using that hex by (meson in_set_dropD)
    then show "\<not> occurs_in (drop 5 sha1_hash) s"
      using long_hex_not_in_request [OF _ _ p s, of "drop 5 sha1_hash"] by (simp add: len)
  qed
  show "\<forall>client_get2 password2 bytes2.
          utf8_encode password2 = Inr bytes2
          \<and> take 5 (upper rt (hexdigest (sha1 rt bytes2))) = take 5 sha1_hash
          \<longrightarrow> snd (check_password_breach rt client_get2 password2)
              = snd (check_password_breach rt client_get password)"
    by (simp add: sent enc h)
qed


lemma other_password_bytes: "utf8_encode (ascii ''2<<'') = Inr [50, 60, 60]"
  by (simp add: ascii_def utf8_char_def)

lemma other_digest:
  "upper example_runtime (hexdigest (sha1 example_runtime [50, 60, 60]))
   = ascii ''AAAAA'' @ ascii ''AABABABABABABABABABABABABABABABABAB''"
proof -
  have "sha1 example_runtime [50, 60, 60] = replicate 3 170 @ replicate 17 171"
    by (simp add: example_runtime_def sum_bytes_def)
  also have "\<dots> = [170, 170, 170, 171, 171, 171, 171, 171, 171, 171,
                   171, 171, 171, 171, 171, 171, 171, 171, 171, 171]"
    by (simp add: numeral_eq_Suc)
  finally show ?thesis
    by (simp add: hexdigest_def hex_char_def upper_def ascii_def)
qed

theorem k_anonymity_witness:
  "utf8_encode (ascii ''UU'') = Inr [85, 85]
   \<and> length (sha1 example_runtime [85, 85]) = 20
   \<and> upper example_runtime (hexdigest (sha1 example_runtime [85, 85])) = ascii ''AAAAA'' @ suffix_A
   \<and> snd (check_password_breach example_runtime (serves example_body) (ascii ''UU''))
       = [range_request (ascii ''AAAAA'')]
   \<and> url (range_request (ascii ''AAAAA'')) = ascii ''https://api.pwnedpasswords.com/range/AAAAA''
   \<and> \<not> occurs_in suffix_A (url (range_request (ascii ''AAAAA'')))
   \<and> drop 5 (upper example_runtime (hexdigest (sha1 example_runtime [50, 60, 60]))) \<noteq> suffix_A
   \<and> snd (check_password_breach example_runtime (\<lambda>req. TimedOut) (ascii ''2<<''))
       = snd (check_password_breach example_runtime (serves example_body) (ascii ''UU''))"
proof -
  have l: "length (sha1 example_runtime [85, 85]) = 20"
    by (simp add: example_runtime_def)
  note t = k_anonymity [where rt = example_runtime and client_get = "serves example_body"
      and password = "ascii ''UU''" and password_bytes = "[85, 85]"
      and sha1_hash = "ascii ''AAAAA'' @ suffix_A"]
  have pre: "utf8_encode (ascii ''UU'') = Inr [85, 85]
      \<and> length (sha1 example_runtime [85, 85]) = 20
      \<and> ascii ''AAAAA'' @ suffix_A
          = upper example_runtime (hexdigest (sha1 example_runtime [85, 85]))"
    using example_password_bytes l example_digest by simp
  from t pre have sent: "snd (check_password_breach example_runtime (serves example_body)
        (ascii ''UU'')) = [range_request (ascii ''AAAAA'')]"
    by (simp add: example_digest ascii_def)
  from t pre have all: "\<forall>s \<in> set (request_strings
          (range_request (take 5 (ascii ''AAAAA'' @ suffix_A)))).
        \<not> occurs_in (ascii ''AAAAA'' @ suffix_A) s
        \<and> \<not> occurs_in (drop 5 (ascii ''AAAAA'' @ suffix_A)) s"
    by blast
  have "url (range_request (ascii ''AAAAA''))
      \<in> set (request_strings (range_request (take 5 (ascii ''AAAAA'' @ suffix_A))))"
    unfolding example_take_drop by (simp add: request_strings_def)
  with all have no: "\<not> occurs_in suffix_A (url (range_request (ascii ''AAAAA'')))"
    unfolding example_take_drop by blast
  from t pre have "\<forall>client_get2 password2 bytes2.
        utf8_encode password2 = Inr bytes2
        \<and> take 5 (upper example_runtime (hexdigest (sha1 example_runtime bytes2)))
            = take 5 (ascii ''AAAAA'' @ suffix_A)
        \<longrightarrow> snd (check_password_breach example_runtime client_get2 password2)
            = snd (check_password_breach example_runtime (serves example_body) (ascii ''UU''))"
    by blast
  moreover have "take 5 (upper example_runtime (hexdigest (sha1 example_runtime [50, 60, 60])))
      = take 5 (ascii ''AAAAA'' @ suffix_A)"
    unfolding other_digest by (simp add: ascii_def)
  ultimately have same: "snd (check_password_breach example_runtime (\<lambda>req. TimedOut)
        (ascii ''2<<''))
      = snd (check_password_breach example_runtime (serves example_body) (ascii ''UU''))"
    using other_password_bytes by blast
  have diff: "drop 5 (upper example_runtime (hexdigest (sha1 example_runtime [50, 60, 60])))
      \<noteq> suffix_A"
    unfolding other_digest by (simp add: ascii_def suffix_A_def)
  have u: "url (range_request (ascii ''AAAAA''))
      = ascii ''https://api.pwnedpasswords.com/range/AAAAA''"
    by (simp add: range_request_url ascii_def)
  show ?thesis
    using example_password_bytes l example_digest sent u no diff same by simp
qed

end
